theory Spec2Isabelle
  imports Complex_Main "HOL-Library.Word" "HOL-Library.AList"
begin

section \<open>Shared vocabulary of \<^verbatim>\<open>speech_Recognizer.p.py\<close>\<close>

text \<open>
  The module keeps two process-wide queues, \<^verbatim>\<open>message_queue\<close> (typed event dictionaries
  drained by the user interface) and \<^verbatim>\<open>segment_queue\<close> (raw audio chunks drained by the
  Google fallback worker). A queue is modelled as a list whose head is the oldest element;
  \<^verbatim>\<open>put\<close> appends at the end. Raw audio is a list of bytes.

  A call into a library that may raise is modelled by its outcome: either the exception
  (with its message, as the f-strings of the source print it) or the returned value.
\<close>

type_synonym bytes = "8 word list"

datatype 'a outcome = Raises string | Returns 'a

text \<open>
  The four dictionaries put on \<^verbatim>\<open>message_queue\<close>:
  \<^verbatim>\<open>{"type":"amplitude","value":v}\<close>, \<^verbatim>\<open>{"type":"transcription","text":t,"time":s}\<close>,
  \<^verbatim>\<open>{"type":"partial","text":p}\<close> and \<^verbatim>\<open>{"type":"status","text":t,"color":c}\<close>.
\<close>

datatype event =
    Amplitude real
  | Transcription string string
  | Partial string
  | Status string string

definition CONFIG_sample_rate :: int where "CONFIG_sample_rate = 16000"
definition CONFIG_chunk_ms :: int where "CONFIG_chunk_ms = 20"
definition CONFIG_partial_update_ms :: int where "CONFIG_partial_update_ms = 80"
definition CONFIG_listening :: string where "CONFIG_listening = ''#63FF88''"
definition CONFIG_ready :: string where "CONFIG_ready = ''#87CEEB''"
definition CONFIG_error :: string where "CONFIG_error = ''#FF6B6B''"
definition CONFIG_model_name :: string where "CONFIG_model_name = ''vosk-model-small-en-us-0.15''"
definition CONFIG_model_zip :: string where "CONFIG_model_zip = ''vosk-model-small-en-us-0.15.zip''"

text \<open>
  \<^verbatim>\<open>str.strip()\<close> removes leading and trailing whitespace; on ASCII text the whitespace
  characters of Python are tab, line feed, vertical tab, form feed, carriage return, the
  four separators 28 to 31 and the space.
\<close>

definition is_space :: "char \<Rightarrow> bool" where
  "is_space c = (let n = of_char c :: nat in (9 \<le> n \<and> n \<le> 13) \<or> (28 \<le> n \<and> n \<le> 32))"

definition strip :: "string \<Rightarrow> string" where
  "strip s = rev (dropWhile is_space (rev (dropWhile is_space s)))"

section \<open>\<^verbatim>\<open>VoskStreamer\<close>\<close>

text \<open>
  The offline decoder is the \<^verbatim>\<open>vosk\<close> library. What it answers is an input of the model:
  whether the import succeeds, whether the model path is a directory, and what the two
  constructors \<^verbatim>\<open>Model(path)\<close> and \<^verbatim>\<open>KaldiRecognizer(model, rate)\<close> do. Library objects
  are opaque handles.
\<close>

type_synonym handle = nat

record vosk_env =
  import_vosk :: "unit outcome"
  path_isdir :: "string \<Rightarrow> bool"
  new_Model :: "string \<Rightarrow> handle outcome"
  new_KaldiRecognizer :: "handle \<Rightarrow> int \<Rightarrow> handle outcome"

text \<open>
  The attributes of a \<^verbatim>\<open>VoskStreamer\<close>. \<open>vs_queue\<close> is the streamer's own frame queue.
  \<open>vs_loops_spawned\<close> is not an attribute of the source: it counts the threads that
  \<^verbatim>\<open>start\<close> has created with \<^verbatim>\<open>threading.Thread(target=self._loop, daemon=True).start()\<close>,
  so that the spawning is visible in the state.
\<close>

record vosk_streamer =
  vs_model_path :: string
  vs_sample_rate :: int
  vs_partial_interval_ms :: int
  vs_model :: "handle option"
  vs_rec :: "handle option"
  vs_queue :: "bytes list"
  vs_running :: bool
  vs_last_partial_time :: real
  vs_loops_spawned :: nat

definition VoskStreamer_init :: "string \<Rightarrow> int \<Rightarrow> int \<Rightarrow> vosk_streamer" where
  "VoskStreamer_init model_path sample_rate partial_interval_ms =
     \<lparr> vs_model_path = model_path,
       vs_sample_rate = sample_rate,
       vs_partial_interval_ms = partial_interval_ms,
       vs_model = None,
       vs_rec = None,
       vs_queue = [],
       vs_running = False,
       vs_last_partial_time = 0,
       vs_loops_spawned = 0 \<rparr>"

text \<open>
  \<^verbatim>\<open>load\<close> returns its boolean, the streamer and the message queue. A failure of
  \<^verbatim>\<open>KaldiRecognizer\<close> comes after \<^verbatim>\<open>self.model\<close> has been assigned, so the model handle
  stays. The exception of \<^verbatim>\<open>SetWords\<close> is swallowed and changes nothing.
\<close>

definition VoskStreamer_load ::
  "vosk_env \<Rightarrow> vosk_streamer \<Rightarrow> event list \<Rightarrow> bool \<times> vosk_streamer \<times> event list" where
  "VoskStreamer_load env s mq =
     (case import_vosk env of
        Raises e \<Rightarrow> (False, s, mq @ [Status (''VOSK import failed: '' @ e) CONFIG_error])
      | Returns _ \<Rightarrow>
          if \<not> path_isdir env (vs_model_path s)
          then (False, s, mq @ [Status ''VOSK model path missing'' CONFIG_error])
          else
            (let mq1 = mq @ [Status ''Loading VOSK model...'' CONFIG_ready] in
             case new_Model env (vs_model_path s) of
               Raises e \<Rightarrow> (False, s, mq1 @ [Status (''VOSK load failed: '' @ e) CONFIG_error])
             | Returns m \<Rightarrow>
                 (let s1 = s\<lparr>vs_model := Some m\<rparr> in
                  case new_KaldiRecognizer env m (vs_sample_rate s) of
                    Raises e \<Rightarrow>
                      (False, s1, mq1 @ [Status (''VOSK load failed: '' @ e) CONFIG_error])
                  | Returns r \<Rightarrow>
                      (True, s1\<lparr>vs_rec := Some r\<rparr>,
                       mq1 @ [Status ''VOSK model loaded'' CONFIG_ready]))))"

definition VoskStreamer_start :: "vosk_streamer \<Rightarrow> vosk_streamer" where
  "VoskStreamer_start s =
     (if vs_running s \<or> vs_rec s = None then s
      else s\<lparr>vs_running := True, vs_loops_spawned := Suc (vs_loops_spawned s)\<rparr>)"

definition VoskStreamer_stop :: "vosk_streamer \<Rightarrow> vosk_streamer" where
  "VoskStreamer_stop s = s\<lparr>vs_running := False\<rparr>"

text \<open>The queue is unbounded, so \<^verbatim>\<open>put_nowait\<close> never raises.\<close>

definition VoskStreamer_feed :: "vosk_streamer \<Rightarrow> bytes \<Rightarrow> vosk_streamer" where
  "VoskStreamer_feed s bts = s\<lparr>vs_queue := vs_queue s @ [bts]\<rparr>"

text \<open>
  What the world answers during one iteration of \<^verbatim>\<open>_loop\<close>. The decoder either raises in
  \<^verbatim>\<open>AcceptWaveform\<close>, or returns true and \<^verbatim>\<open>Result()\<close> is called, or returns false and
  \<^verbatim>\<open>PartialResult()\<close> is called. Such a call raises (outside the inner \<^verbatim>\<open>try\<close>), or
  returns a JSON string: \<open>Some t\<close> when \<^verbatim>\<open>json.loads\<close>, \<^verbatim>\<open>j.get(key, "")\<close> give the
  string \<open>t\<close>, \<open>None\<close> when one of them (or \<^verbatim>\<open>strip\<close>) raises inside the inner \<^verbatim>\<open>try\<close>.
  \<open>o_now\<close> is \<^verbatim>\<open>time.time()*1000.0\<close> (a float in the source, a real here) and \<open>o_stamp\<close>
  is \<^verbatim>\<open>datetime.now().strftime("%H:%M:%S")\<close>.
\<close>

datatype reply =
    AcceptRaises string
  | Accepted "string option outcome"
  | NotAccepted "string option outcome"

record obs =
  o_reply :: reply
  o_now :: real
  o_stamp :: string

definition VoskStreamer_iteration ::
  "vosk_streamer \<Rightarrow> event list \<Rightarrow> obs \<Rightarrow> vosk_streamer \<times> event list" where
  "VoskStreamer_iteration s mq ob =
     (case vs_queue s of
        [] \<Rightarrow> (s, mq)
      | bts # rest \<Rightarrow>
          (let s1 = s\<lparr>vs_queue := rest\<rparr>;
               failed = (\<lambda>e. (s1, mq @ [Status (''VOSK error: '' @ e) CONFIG_error]))
           in case o_reply ob of
                AcceptRaises e \<Rightarrow> failed e
              | Accepted (Raises e) \<Rightarrow> failed e
              | Accepted (Returns None) \<Rightarrow> (s1, mq)
              | Accepted (Returns (Some t)) \<Rightarrow>
                  (let txt = strip t in
                   if txt \<noteq> [] then (s1, mq @ [Transcription txt (o_stamp ob)]) else (s1, mq))
              | NotAccepted (Raises e) \<Rightarrow> failed e
              | NotAccepted (Returns None) \<Rightarrow> (s1, mq)
              | NotAccepted (Returns (Some t)) \<Rightarrow>
                  (let p = strip t; now = o_now ob in
                   if p \<noteq> [] \<and>
                      real_of_int (vs_partial_interval_ms s1) \<le> now - vs_last_partial_time s1
                   then (s1\<lparr>vs_last_partial_time := now\<rparr>, mq @ [Partial p])
                   else (s1, mq))))"

text \<open>
  \<^verbatim>\<open>while self.running:\<close> over the successive iterations. The list holds what the world
  answers in each iteration; when it is used up the loop is still polling its queue, and
  the pair is the state reached so far.
\<close>

fun VoskStreamer_loop_run ::
  "vosk_streamer \<Rightarrow> event list \<Rightarrow> obs list \<Rightarrow> vosk_streamer \<times> event list" where
  "VoskStreamer_loop_run s mq [] = (s, mq)"
| "VoskStreamer_loop_run s mq (ob # obs) =
     (if vs_running s
      then (case VoskStreamer_iteration s mq ob of (s', mq') \<Rightarrow> VoskStreamer_loop_run s' mq' obs)
      else (s, mq))"

text \<open>
  The flush after the loop: \<^verbatim>\<open>FinalResult()\<close> is asked when \<^verbatim>\<open>self.rec\<close> is set, and every
  exception is swallowed.
\<close>

record final_obs =
  f_reply :: "string option outcome"
  f_stamp :: string

definition VoskStreamer_loop_exit :: "vosk_streamer \<Rightarrow> event list \<Rightarrow> final_obs \<Rightarrow> event list" where
  "VoskStreamer_loop_exit s mq fin =
     (if vs_rec s = None then mq
      else case f_reply fin of
             Raises e \<Rightarrow> mq
           | Returns None \<Rightarrow> mq
           | Returns (Some t) \<Rightarrow>
               (let txt = strip t in
                if txt \<noteq> [] then mq @ [Transcription txt (f_stamp fin)] else mq))"

text \<open>
  The whole of \<^verbatim>\<open>_loop\<close> for a run in which another thread calls \<^verbatim>\<open>stop\<close> after the listed
  iterations: the iterations, the stop, the flush.
\<close>

definition VoskStreamer_loop ::
  "vosk_streamer \<Rightarrow> event list \<Rightarrow> obs list \<Rightarrow> final_obs \<Rightarrow> vosk_streamer \<times> event list" where
  "VoskStreamer_loop s mq obs fin =
     (case VoskStreamer_loop_run s mq obs of
        (s', mq') \<Rightarrow> (VoskStreamer_stop s', VoskStreamer_loop_exit (VoskStreamer_stop s') mq' fin))"

text \<open>
  The events one iteration adds, and the clock readings of the iterations of a run that
  put a partial on the queue (the partial dictionary itself carries no time).
\<close>

definition emitted :: "vosk_streamer \<Rightarrow> obs \<Rightarrow> event list" where
  "emitted s ob = snd (VoskStreamer_iteration s [] ob)"

fun is_partial :: "event \<Rightarrow> bool" where
  "is_partial (Partial p) = True"
| "is_partial _ = False"

fun emit_times :: "vosk_streamer \<Rightarrow> obs list \<Rightarrow> real list" where
  "emit_times s [] = []"
| "emit_times s (ob # obs) =
     (if filter is_partial (emitted s ob) \<noteq> [] then [o_now ob] else [])
     @ emit_times (fst (VoskStreamer_iteration s [] ob)) obs"

text \<open>A partial hypothesis \<open>p\<close> that the decoder reports at clock reading \<open>t\<close>.\<close>

definition partial_at :: "string \<Rightarrow> real \<Rightarrow> obs" where
  "partial_at p t = \<lparr> o_reply = NotAccepted (Returns (Some p)), o_now = t, o_stamp = [] \<rparr>"

section \<open>The shared state of the application\<close>

text \<open>
  The two module-level queues and the application's \<^verbatim>\<open>self.vosk_streamer\<close> attribute
  (\<^verbatim>\<open>None\<close> until a model has been loaded).
\<close>

record world =
  message_queue :: "event list"
  segment_queue :: "bytes list"
  app_vosk_streamer :: "vosk_streamer option"

definition put_message :: "world \<Rightarrow> event \<Rightarrow> world" where
  "put_message W e = W\<lparr>message_queue := message_queue W @ [e]\<rparr>"

definition put_segment :: "world \<Rightarrow> bytes \<Rightarrow> world" where
  "put_segment W d = W\<lparr>segment_queue := segment_queue W @ [d]\<rparr>"

section \<open>\<^verbatim>\<open>LowLatencyCapture\<close>\<close>

text \<open>
  \<^verbatim>\<open>int(x)\<close> on a Python float truncates toward zero. The quotient
  \<^verbatim>\<open>rate * chunk_ms / 1000\<close> is Python's true division; it is taken over the reals here
  (the rounding of the 64-bit float is not modelled; it is exact to the integer part for
  every product below \<open>2 ^ 53\<close>).
\<close>

definition py_int :: "real \<Rightarrow> int" where
  "py_int x = (if 0 \<le> x then \<lfloor>x\<rfloor> else \<lceil>x\<rceil>)"

text \<open>
  The fields of \<^verbatim>\<open>LowLatencyCapture\<close> that the constructor sets. \<open>cap_pa\<close> records
  whether a PyAudio instance could be created; \<open>cap_sink\<close> is \<^verbatim>\<open>self.sink\<close>, either
  \<^verbatim>\<open>None\<close> (as the constructor leaves it) or a callable that takes the frame and acts on
  the shared state.
\<close>

record capture =
  cap_rate :: int
  cap_chunk_ms :: int
  cap_chunk :: int
  cap_pa :: bool
  cap_running :: bool
  cap_device_index :: "int option"
  cap_sink :: "(bytes \<Rightarrow> world \<Rightarrow> world) option"

definition LowLatencyCapture_init :: "int \<Rightarrow> int \<Rightarrow> int option \<Rightarrow> bool \<Rightarrow> capture" where
  "LowLatencyCapture_init rate chunk_ms device_index pa_ok =
     \<lparr> cap_rate = rate,
       cap_chunk_ms = chunk_ms,
       cap_chunk = max 1 (py_int (real_of_int rate * real_of_int chunk_ms / 1000)),
       cap_pa = pa_ok,
       cap_running = False,
       cap_device_index = device_index,
       cap_sink = None \<rparr>"

text \<open>
  \<^verbatim>\<open>start\<close> opens the stream with \<^verbatim>\<open>format=pyaudio.paInt16, channels=1,
  frames_per_buffer=self.chunk\<close>, and \<^verbatim>\<open>_read_loop\<close> asks for \<^verbatim>\<open>self.chunk\<close> frames per
  read: a buffer of \<open>chunk\<close> samples of two bytes each on one channel.
\<close>

definition paInt16_sample_width :: int where "paInt16_sample_width = 2"
definition open_channels :: int where "open_channels = 1"

definition read_size_bytes :: "capture \<Rightarrow> int" where
  "read_size_bytes c = cap_chunk c * paInt16_sample_width * open_channels"

text \<open>
  \<^verbatim>\<open>np.frombuffer(data, dtype=np.int16)\<close>: the bytes taken two by two as signed 16-bit
  integers, low byte first; a buffer of odd length raises \<^verbatim>\<open>ValueError\<close>.
\<close>

definition int16_le :: "8 word \<Rightarrow> 8 word \<Rightarrow> int" where
  "int16_le lo hi =
     (let u = int (unat lo) + 256 * int (unat hi) in if 32768 \<le> u then u - 65536 else u)"

fun frombuffer_int16 :: "bytes \<Rightarrow> int list option" where
  "frombuffer_int16 [] = Some []"
| "frombuffer_int16 [b] = None"
| "frombuffer_int16 (lo # hi # rest) =
     (case frombuffer_int16 rest of None \<Rightarrow> None | Some xs \<Rightarrow> Some (int16_le lo hi # xs))"

text \<open>
  \<^verbatim>\<open>math.sqrt(float(np.mean(arr*arr))) / 32768.0\<close>, zero for an empty array. The
  arithmetic is that of the reals (the rounding of the 32-bit floats is not modelled).
\<close>

definition rms :: "int list \<Rightarrow> real" where
  "rms arr =
     (if arr = [] then 0
      else sqrt (sum_list (map (\<lambda>x. real_of_int x * real_of_int x) arr) / real (length arr))
           / 32768)"

text \<open>
  One iteration of \<^verbatim>\<open>_read_loop\<close>. A failed device read puts an amplitude of zero and
  goes on. The call of \<^verbatim>\<open>np.frombuffer\<close> stands outside every \<^verbatim>\<open>try\<close>: when it raises
  the thread ends, which is the result \<open>Raises\<close>.
\<close>

datatype read_outcome = ReadRaises | ReadOk bytes

definition LowLatencyCapture_read_iteration ::
  "capture \<Rightarrow> world \<Rightarrow> read_outcome \<Rightarrow> world outcome" where
  "LowLatencyCapture_read_iteration c W r =
     (case r of
        ReadRaises \<Rightarrow> Returns (put_message W (Amplitude 0))
      | ReadOk data \<Rightarrow>
          (case frombuffer_int16 data of
             None \<Rightarrow> Raises ''buffer size must be a multiple of element size''
           | Some arr \<Rightarrow>
               (let W1 = put_message W (Amplitude (rms arr)) in
                case cap_sink c of
                  Some sink \<Rightarrow> Returns (sink data W1)
                | None \<Rightarrow> Returns (put_segment W1 data))))"

text \<open>\<^verbatim>\<open>while self.running:\<close> over the successive device reads.\<close>

fun LowLatencyCapture_read_loop :: "capture \<Rightarrow> world \<Rightarrow> read_outcome list \<Rightarrow> world outcome" where
  "LowLatencyCapture_read_loop c W [] = Returns W"
| "LowLatencyCapture_read_loop c W (r # rs) =
     (if cap_running c
      then (case LowLatencyCapture_read_iteration c W r of
              Raises e \<Rightarrow> Raises e
            | Returns W' \<Rightarrow> LowLatencyCapture_read_loop c W' rs)
      else Returns W)"

section \<open>\<^verbatim>\<open>GeminiStreamingAutoDLApp\<close>: capture wiring\<close>

text \<open>
  \<^verbatim>\<open>_capture_sink\<close>: the frame goes to the streamer when there is one and it is running,
  to \<^verbatim>\<open>segment_queue\<close> otherwise.
\<close>

definition capture_sink :: "bytes \<Rightarrow> world \<Rightarrow> world" where
  "capture_sink data_bytes W =
     (case app_vosk_streamer W of
        Some vs \<Rightarrow>
          if vs_running vs
          then W\<lparr>app_vosk_streamer := Some (VoskStreamer_feed vs data_bytes)\<rparr>
          else put_segment W data_bytes
      | None \<Rightarrow> put_segment W data_bytes)"

text \<open>
  The capture object of the application, as \<^verbatim>\<open>__init__\<close> builds it
  (\<^verbatim>\<open>LowLatencyCapture(rate=CONFIG["sample_rate"], chunk_ms=...)\<close>) and as
  \<^verbatim>\<open>_auto_model_and_start\<close> starts it. No statement of the file assigns \<^verbatim>\<open>capture.sink\<close>:
  the attribute keeps the \<^verbatim>\<open>None\<close> of the constructor.
\<close>

definition app_capture :: "int \<Rightarrow> capture" where
  "app_capture chunk_ms =
     (LowLatencyCapture_init CONFIG_sample_rate chunk_ms None True)\<lparr>cap_running := True\<rparr>"

text \<open>The same capture object with \<^verbatim>\<open>_capture_sink\<close> installed as its sink.\<close>

definition wired_capture :: "int \<Rightarrow> capture" where
  "wired_capture chunk_ms = (app_capture chunk_ms)\<lparr>cap_sink := Some capture_sink\<rparr>"

section \<open>\<^verbatim>\<open>GoogleSegmentWorker\<close>\<close>

text \<open>
  The worker is built as \<^verbatim>\<open>GoogleSegmentWorker(message_queue)\<close>, so its \<^verbatim>\<open>self.queue\<close> is
  the message queue itself. \<^verbatim>\<open>sr.AudioData(raw, rate, width)\<close> asserts a positive sample
  rate and a sample width between 1 and 4. \<^verbatim>\<open>recognize_google\<close> returns a text, raises
  \<^verbatim>\<open>UnknownValueError\<close> (no speech understood), \<^verbatim>\<open>RequestError\<close> (the service could not
  be reached) or some other exception.
\<close>

record google_worker =
  gw_sample_rate :: int
  gw_sample_width :: int
  gw_running :: bool

definition GoogleSegmentWorker_init :: "int \<Rightarrow> int \<Rightarrow> google_worker" where
  "GoogleSegmentWorker_init sample_rate sample_width =
     \<lparr> gw_sample_rate = sample_rate, gw_sample_width = sample_width, gw_running = False \<rparr>"

definition GoogleSegmentWorker_start :: "google_worker \<Rightarrow> google_worker" where
  "GoogleSegmentWorker_start w = (if gw_running w then w else w\<lparr>gw_running := True\<rparr>)"

definition new_AudioData :: "int \<Rightarrow> int \<Rightarrow> unit outcome" where
  "new_AudioData sample_rate sample_width =
     (if sample_rate \<le> 0 then Raises ''Sample rate must be a positive integer''
      else if sample_width < 1 \<or> 4 < sample_width
      then Raises ''Sample width must be between 1 and 4 inclusive''
      else Returns ())"

datatype google_reply =
    Recognized string
  | UnknownValueError
  | RequestError string
  | OtherError string

record gobs =
  g_reply :: google_reply
  g_stamp :: string

definition GoogleSegmentWorker_iteration :: "google_worker \<Rightarrow> world \<Rightarrow> gobs \<Rightarrow> world" where
  "GoogleSegmentWorker_iteration w W ob =
     (case segment_queue W of
        [] \<Rightarrow> W
      | raw # rest \<Rightarrow>
          (let W1 = W\<lparr>segment_queue := rest\<rparr>;
               listening = Status ''Listening...'' CONFIG_listening
           in case new_AudioData (gw_sample_rate w) (gw_sample_width w) of
                Raises e \<Rightarrow> put_message W1 (Status (''Google worker error: '' @ e) CONFIG_error)
              | Returns audio \<Rightarrow>
                  (let W2 = put_message W1 (Status ''Recognizing...'' CONFIG_ready) in
                   case g_reply ob of
                     Recognized text \<Rightarrow>
                       put_message
                         (if strip text \<noteq> []
                          then put_message W2 (Transcription text (g_stamp ob))
                          else W2)
                         listening
                   | UnknownValueError \<Rightarrow> put_message W2 listening
                   | RequestError e \<Rightarrow>
                       put_message (put_message W2 (Status ''Network/ASR Error'' CONFIG_error))
                         listening
                   | OtherError e \<Rightarrow>
                       put_message (put_message W2 listening)
                         (Status (''Google worker error: '' @ e) CONFIG_error))))"

fun GoogleSegmentWorker_loop :: "google_worker \<Rightarrow> world \<Rightarrow> gobs list \<Rightarrow> world" where
  "GoogleSegmentWorker_loop w W [] = W"
| "GoogleSegmentWorker_loop w W (ob # obs) =
     (if gw_running w
      then GoogleSegmentWorker_loop w (GoogleSegmentWorker_iteration w W ob) obs
      else W)"

text \<open>The worker of the application: the default rate and a sample width of two, started.\<close>

definition app_google_worker :: google_worker where
  "app_google_worker = GoogleSegmentWorker_start (GoogleSegmentWorker_init CONFIG_sample_rate 2)"

text \<open>The events of a queue that are final transcripts, and those that are error statuses.\<close>

fun is_final :: "event \<Rightarrow> bool" where
  "is_final (Transcription t s) = True"
| "is_final _ = False"

fun is_error_status :: "event \<Rightarrow> bool" where
  "is_error_status (Status t c) = (c = CONFIG_error)"
| "is_error_status _ = False"

section \<open>Fixtures for the scenarios\<close>

text \<open>
  A decoder environment in which everything succeeds, and the streamer obtained through
  the public operations: construct, \<^verbatim>\<open>load\<close>, \<^verbatim>\<open>start\<close>, then \<^verbatim>\<open>feed\<close> each frame.
\<close>

definition good_env :: vosk_env where
  "good_env = \<lparr> import_vosk = Returns (), path_isdir = (\<lambda>p. True),
      new_Model = (\<lambda>p. Returns 0), new_KaldiRecognizer = (\<lambda>m r. Returns 1) \<rparr>"

definition ready_streamer :: "int \<Rightarrow> bytes list \<Rightarrow> vosk_streamer" where
  "ready_streamer interval frames =
     foldl VoskStreamer_feed
       (VoskStreamer_start (fst (snd (VoskStreamer_load good_env
          (VoskStreamer_init ''models/vosk-model-small-en-us-0.15'' CONFIG_sample_rate interval) []))))
       frames"

text \<open>An utterance boundary: a final text \<open>txt\<close> that the decoder reports.\<close>

definition final_at :: "string \<Rightarrow> string \<Rightarrow> real \<Rightarrow> obs" where
  "final_at txt stamp t = \<lparr> o_reply = Accepted (Returns (Some txt)), o_now = t, o_stamp = stamp \<rparr>"

text \<open>
  The decoder raises in the iteration: in \<^verbatim>\<open>AcceptWaveform\<close>, \<^verbatim>\<open>Result\<close> or
  \<^verbatim>\<open>PartialResult\<close>, the calls that stand outside the inner \<^verbatim>\<open>try\<close>.
\<close>

definition decode_raises :: "reply \<Rightarrow> string \<Rightarrow> bool" where
  "decode_raises r e = (r = AcceptRaises e \<or> r = Accepted (Raises e) \<or> r = NotAccepted (Raises e))"

text \<open>A decoder call that raises \<open>e\<close> in \<^verbatim>\<open>AcceptWaveform\<close>.\<close>

definition raising_at :: "string \<Rightarrow> real \<Rightarrow> obs" where
  "raising_at e t = \<lparr> o_reply = AcceptRaises e, o_now = t, o_stamp = [] \<rparr>"

text \<open>
  The decoder rejects the model: \<^verbatim>\<open>Model(path)\<close> raises, or \<^verbatim>\<open>KaldiRecognizer\<close> raises
  on the model it was given.
\<close>

definition decoder_rejects :: "vosk_env \<Rightarrow> vosk_streamer \<Rightarrow> bool" where
  "decoder_rejects env s =
     (case new_Model env (vs_model_path s) of
        Raises e \<Rightarrow> True
      | Returns m \<Rightarrow>
          (case new_KaldiRecognizer env m (vs_sample_rate s) of
             Raises e \<Rightarrow> True
           | Returns r \<Rightarrow> False))"

text \<open>
  The invariant of the streamer: it is running, or has ever spawned a decode loop, only
  with a recognizer handle in place.
\<close>

definition started_after_load :: "vosk_streamer \<Rightarrow> bool" where
  "started_after_load s = ((vs_running s \<or> 0 < vs_loops_spawned s) \<longrightarrow> vs_rec s \<noteq> None)"

text \<open>An environment whose model directory does not exist.\<close>

definition missing_env :: vosk_env where
  "missing_env = \<lparr> import_vosk = Returns (), path_isdir = (\<lambda>p. False),
      new_Model = (\<lambda>p. Raises ''Failed to create a model''),
      new_KaldiRecognizer = (\<lambda>m r. Raises ''Failed to create a recognizer'') \<rparr>"

text \<open>A state in which a loaded streamer is running with an empty frame queue.\<close>

definition streaming_world :: world where
  "streaming_world =
     \<lparr> message_queue = [], segment_queue = [], app_vosk_streamer = Some (ready_streamer 80 []) \<rparr>"

text \<open>The events one iteration of the fallback worker adds to the message queue.\<close>

definition fallback_events :: "google_worker \<Rightarrow> world \<Rightarrow> gobs \<Rightarrow> event list" where
  "fallback_events w W ob =
     drop (length (message_queue W)) (message_queue (GoogleSegmentWorker_iteration w W ob))"

text \<open>
  A chunk \<open>raw\<close> is waiting in \<^verbatim>\<open>segment_queue\<close> and the worker's rate and width pass the
  assertions of \<^verbatim>\<open>sr.AudioData\<close>.
\<close>

definition chunk_ready :: "google_worker \<Rightarrow> world \<Rightarrow> bytes \<Rightarrow> bytes list \<Rightarrow> bool" where
  "chunk_ready w W raw rest =
     (segment_queue W = raw # rest
      \<and> new_AudioData (gw_sample_rate w) (gw_sample_width w) = Returns ())"

text \<open>A state with two chunks waiting and no streamer, and an answer of the service.\<close>

definition fallback_world :: world where
  "fallback_world =
     \<lparr> message_queue = [], segment_queue = [[1, 0], [2, 0]], app_vosk_streamer = None \<rparr>"

definition google_says :: "google_reply \<Rightarrow> gobs" where
  "google_says r = \<lparr> g_reply = r, g_stamp = ''09:00:00'' \<rparr>"

section \<open>The file system and the asset mirrors\<close>

text \<open>
  The file system is a finite table from paths to nodes, in listing order; a node is a
  regular file with its bytes or a directory. Paths are POSIX strings in normal form (no
  \<^verbatim>\<open>.\<close>, \<^verbatim>\<open>..\<close> or doubled separators), so that two different strings name two
  different places and \<^verbatim>\<open>os.path.abspath\<close> is compared by comparing the strings.
\<close>

type_synonym path = string

datatype node = File bytes | Dir

type_synonym filesystem = "(path \<times> node) list"

definition isdir :: "filesystem \<Rightarrow> path \<Rightarrow> bool" where
  "isdir fs p = (map_of fs p = Some Dir)"

definition path_exists :: "filesystem \<Rightarrow> path \<Rightarrow> bool" where
  "path_exists fs p = (map_of fs p \<noteq> None)"

definition dirname :: "path \<Rightarrow> path" where
  "dirname p =
     (let head = rev (dropWhile (\<lambda>c. c \<noteq> CHR ''/'') (rev p)) in
      if head \<noteq> [] \<and> filter (\<lambda>c. c \<noteq> CHR ''/'') head \<noteq> []
      then rev (dropWhile (\<lambda>c. c = CHR ''/'') (rev head))
      else head)"

definition basename :: "path \<Rightarrow> path" where
  "basename p = rev (takeWhile (\<lambda>c. c \<noteq> CHR ''/'') (rev p))"

definition join :: "path \<Rightarrow> path \<Rightarrow> path" where
  "join a b =
     (if b \<noteq> [] \<and> hd b = CHR ''/'' then b
      else if a = [] \<or> last a = CHR ''/'' then a @ b
      else a @ ''/'' @ b)"

text \<open>The proper ancestors of a path: its non-empty prefixes that end before a separator.\<close>

definition ancestors :: "path \<Rightarrow> path list" where
  "ancestors p =
     filter (\<lambda>q. q \<noteq> []) (map (\<lambda>i. take i p) (filter (\<lambda>i. p ! i = CHR ''/'') [0..<length p]))"

fun mkdir_all :: "filesystem \<Rightarrow> path list \<Rightarrow> filesystem outcome" where
  "mkdir_all fs [] = Returns fs"
| "mkdir_all fs (d # ds) =
     (case map_of fs d of
        Some (File b) \<Rightarrow> Raises ''FileExistsError''
      | Some Dir \<Rightarrow> mkdir_all fs ds
      | None \<Rightarrow> mkdir_all (AList.update d Dir fs) ds)"

text \<open>\<^verbatim>\<open>os.makedirs(d, exist_ok=True)\<close>; the empty path raises.\<close>

definition makedirs :: "filesystem \<Rightarrow> path \<Rightarrow> filesystem outcome" where
  "makedirs fs d =
     (if d = [] then Raises ''FileNotFoundError'' else mkdir_all fs (ancestors d @ [d]))"

text \<open>
  \<^verbatim>\<open>open(p, "wb")\<close> creates the file or truncates it; it raises on a directory and when
  the parent directory is missing (an empty \<open>dirname\<close> is the working directory).
\<close>

definition open_wb :: "filesystem \<Rightarrow> path \<Rightarrow> filesystem outcome" where
  "open_wb fs p =
     (if isdir fs p then Raises ''IsADirectoryError''
      else if dirname p \<noteq> [] \<and> \<not> isdir fs (dirname p) then Raises ''FileNotFoundError''
      else Returns (AList.update p (File []) fs))"

definition file_append :: "filesystem \<Rightarrow> path \<Rightarrow> bytes \<Rightarrow> filesystem" where
  "file_append fs p c =
     (case map_of fs p of
        Some (File b) \<Rightarrow> AList.update p (File (b @ c)) fs
      | _ \<Rightarrow> fs)"

text \<open>\<^verbatim>\<open>os.replace(src, dst)\<close>: one atomic step; it raises when \<open>dst\<close> is a directory.\<close>

definition os_replace :: "filesystem \<Rightarrow> path \<Rightarrow> path \<Rightarrow> filesystem outcome" where
  "os_replace fs src dst =
     (case map_of fs src of
        None \<Rightarrow> Raises ''FileNotFoundError''
      | Some n \<Rightarrow>
          if isdir fs dst then Raises ''IsADirectoryError''
          else Returns (AList.update dst n (AList.delete src fs)))"

definition os_remove :: "filesystem \<Rightarrow> path \<Rightarrow> filesystem outcome" where
  "os_remove fs p =
     (case map_of fs p of
        Some (File b) \<Rightarrow> Returns (AList.delete p fs)
      | Some Dir \<Rightarrow> Raises ''IsADirectoryError''
      | None \<Rightarrow> Raises ''FileNotFoundError'')"

definition path_within :: "path \<Rightarrow> path \<Rightarrow> bool" where
  "path_within d p = (p = d \<or> take (Suc (length d)) p = d @ ''/'')"

definition rmtree :: "filesystem \<Rightarrow> path \<Rightarrow> filesystem outcome" where
  "rmtree fs d =
     (if isdir fs d then Returns (filter (\<lambda>(p, n). \<not> path_within d p) fs)
      else Raises ''NotADirectoryError'')"

text \<open>
  \<^verbatim>\<open>shutil.move(src, dst)\<close> of a directory: into \<open>dst\<close> when that is a directory, else a
  rename to \<open>dst\<close>, which raises when the destination exists.
\<close>

definition shutil_move :: "filesystem \<Rightarrow> path \<Rightarrow> path \<Rightarrow> filesystem outcome" where
  "shutil_move fs src dst =
     (let real_dst = (if isdir fs dst then join dst (basename src) else dst) in
      if path_exists fs real_dst then Raises ''Destination path already exists''
      else Returns (map (\<lambda>(p, n). (if path_within src p then real_dst @ drop (length src) p else p, n)) fs))"

definition listdir :: "filesystem \<Rightarrow> path \<Rightarrow> string list" where
  "listdir fs d = map basename (filter (\<lambda>p. dirname p = d \<and> basename p \<noteq> []) (map fst fs))"

text \<open>
  A mirror answers a request by raising, or with a response: the \<^verbatim>\<open>Content-Length\<close>
  header if any, and what the successive calls of \<^verbatim>\<open>resp.read(chunk_size)\<close> give, each a
  block of bytes or an exception. An empty block, or the end of the list, is the end of
  the stream.
\<close>

datatype chunk_read = Data bytes | ReadError string

record response =
  content_length :: "string option"
  body :: "chunk_read list"

text \<open>
  The arguments of one call of the status callback:
  \<^verbatim>\<open>(percent, done, total, text)\<close>, where \<open>percent\<close> and \<open>total\<close> may be \<^verbatim>\<open>None\<close>.
\<close>

type_synonym progress = "int option \<times> nat \<times> nat option \<times> string"

text \<open>
  The state the provisioner acts on: the file system, the history of the file systems it
  has produced (one entry per library call that writes, oldest first), the requests sent to
  the network (one URL per \<^verbatim>\<open>urlopen\<close>), and the calls of the status callback.
\<close>

record prov =
  p_fs :: filesystem
  p_hist :: "filesystem list"
  p_net :: "string list"
  p_calls :: "progress list"

definition set_fs :: "prov \<Rightarrow> filesystem \<Rightarrow> prov" where
  "set_fs st fs = st\<lparr>p_fs := fs, p_hist := p_hist st @ [fs]\<rparr>"

definition status_cb :: "prov \<Rightarrow> progress \<Rightarrow> prov" where
  "status_cb st c = st\<lparr>p_calls := p_calls st @ [c]\<rparr>"

text \<open>
  The libraries the provisioner calls: \<^verbatim>\<open>urllib.request.urlopen\<close> and the reader of the
  zip container, which gives the members of an archive (name and content) or raises.
\<close>

record prov_env =
  fetch :: "string \<Rightarrow> response outcome"
  zip_namelist :: "bytes \<Rightarrow> (string \<times> node) list outcome"

text \<open>\<^verbatim>\<open>total.isdigit()\<close> and \<^verbatim>\<open>int(total)\<close> on ASCII text.\<close>

definition isdigit :: "string \<Rightarrow> bool" where
  "isdigit s = (s \<noteq> [] \<and> filter (\<lambda>c. \<not> (48 \<le> (of_char c :: nat) \<and> (of_char c :: nat) \<le> 57)) s = [])"

definition int_of_digits :: "string \<Rightarrow> nat" where
  "int_of_digits s = foldl (\<lambda>acc c. 10 * acc + ((of_char c :: nat) - 48)) 0 s"

definition parse_total :: "string option \<Rightarrow> nat option" where
  "parse_total h =
     (case h of
        None \<Rightarrow> None
      | Some t \<Rightarrow> if t \<noteq> [] \<and> isdigit t then Some (int_of_digits t) else None)"

definition percent_of :: "nat \<Rightarrow> nat option \<Rightarrow> int option" where
  "percent_of downloaded tot =
     (case tot of
        None \<Rightarrow> None
      | Some t \<Rightarrow> if t = 0 then None else Some (int (downloaded * 100 div t)))"

section \<open>\<^verbatim>\<open>_download_with_progress\<close>\<close>

text \<open>
  The \<^verbatim>\<open>while True\<close> loop that copies the response to the open temporary file. The
  result is the exception raised by \<^verbatim>\<open>resp.read\<close>, if any, the byte count and the state;
  when \<^verbatim>\<open>read\<close> raises, the \<^verbatim>\<open>with\<close> block closes the file and what was written stays.
\<close>

fun read_chunks ::
  "path \<Rightarrow> path \<Rightarrow> nat option \<Rightarrow> chunk_read list \<Rightarrow> nat \<Rightarrow> prov \<Rightarrow> string option \<times> nat \<times> prov" where
  "read_chunks tmp_path dest_path tot [] downloaded st = (None, downloaded, st)"
| "read_chunks tmp_path dest_path tot (ReadError e # rest) downloaded st = (Some e, downloaded, st)"
| "read_chunks tmp_path dest_path tot (Data chunk # rest) downloaded st =
     (if chunk = [] then (None, downloaded, st)
      else
        (let st1 = set_fs st (file_append (p_fs st) tmp_path chunk);
             downloaded1 = downloaded + length chunk;
             st2 = status_cb st1
                     (percent_of downloaded1 tot, downloaded1, tot,
                      ''Downloading '' @ basename dest_path)
         in read_chunks tmp_path dest_path tot rest downloaded1 st2))"

definition download_error :: "prov \<Rightarrow> string \<Rightarrow> bool \<times> prov" where
  "download_error st e = (False, status_cb st (None, 0, Some 0, ''Download error: '' @ e))"

definition download_with_progress :: "prov_env \<Rightarrow> string \<Rightarrow> path \<Rightarrow> prov \<Rightarrow> bool \<times> prov" where
  "download_with_progress env url dest_path st =
     (let st0 = st\<lparr>p_net := p_net st @ [url]\<rparr> in
      case fetch env url of
        Raises e \<Rightarrow> download_error st0 e
      | Returns resp \<Rightarrow>
          (let tot = parse_total (content_length resp);
               tmp_path = dest_path @ ''.part''
           in case open_wb (p_fs st0) tmp_path of
                Raises e \<Rightarrow> download_error st0 e
              | Returns fs1 \<Rightarrow>
                  (case read_chunks tmp_path dest_path tot (body resp) 0 (set_fs st0 fs1) of
                     (Some e, downloaded, st2) \<Rightarrow> download_error st2 e
                   | (None, downloaded, st2) \<Rightarrow>
                       (case os_replace (p_fs st2) tmp_path dest_path of
                          Raises e \<Rightarrow> download_error st2 e
                        | Returns fs3 \<Rightarrow>
                            (True, status_cb (set_fs st2 fs3)
                                     (Some 100, downloaded, tot, ''Download complete''))))))"

text \<open>The bytes of a response up to the end of its stream.\<close>

fun payload :: "chunk_read list \<Rightarrow> bytes" where
  "payload [] = []"
| "payload (ReadError e # rest) = []"
| "payload (Data chunk # rest) = (if chunk = [] then [] else chunk @ payload rest)"

fun stream_ok :: "chunk_read list \<Rightarrow> bool" where
  "stream_ok [] = True"
| "stream_ok (ReadError e # rest) = False"
| "stream_ok (Data chunk # rest) = (chunk = [] \<or> stream_ok rest)"

section \<open>\<^verbatim>\<open>_extract_zip\<close>\<close>

text \<open>
  \<^verbatim>\<open>zf.extract(name, path=extract_to)\<close>: a directory member makes the directory and its
  ancestors, a file member makes the ancestors and writes the file. Member names are
  relative paths in normal form.
\<close>

definition zip_extract :: "filesystem \<Rightarrow> path \<Rightarrow> string \<Rightarrow> node \<Rightarrow> filesystem outcome" where
  "zip_extract fs extract_to name n =
     (let p = join extract_to (rev (dropWhile (\<lambda>c. c = CHR ''/'') (rev name))) in
      case n of
        Dir \<Rightarrow> mkdir_all fs (ancestors p @ [p])
      | File b \<Rightarrow>
          (case mkdir_all fs (ancestors p) of
             Raises e \<Rightarrow> Raises e
           | Returns fs1 \<Rightarrow>
               if isdir fs1 p then Raises ''IsADirectoryError''
               else Returns (AList.update p (File b) fs1)))"

fun extract_members ::
  "path \<Rightarrow> nat \<Rightarrow> nat \<Rightarrow> (string \<times> node) list \<Rightarrow> prov \<Rightarrow> string option \<times> prov" where
  "extract_members extract_to tot i [] st = (None, st)"
| "extract_members extract_to tot i ((name, n) # members) st =
     (case zip_extract (p_fs st) extract_to name n of
        Raises e \<Rightarrow> (Some e, st)
      | Returns fs1 \<Rightarrow>
          extract_members extract_to tot (Suc i) members
            (status_cb (set_fs st fs1)
               (Some (int (i * 100 div tot)), i, Some tot, ''Extracting '' @ name)))"

definition extract_error :: "prov \<Rightarrow> string \<Rightarrow> bool \<times> prov" where
  "extract_error st e = (False, status_cb st (None, 0, Some 0, ''Extract error: '' @ e))"

definition extract_zip :: "prov_env \<Rightarrow> path \<Rightarrow> path \<Rightarrow> prov \<Rightarrow> bool \<times> prov" where
  "extract_zip env zip_path extract_to st =
     (case map_of (p_fs st) zip_path of
        None \<Rightarrow> extract_error st ''FileNotFoundError''
      | Some Dir \<Rightarrow> extract_error st ''IsADirectoryError''
      | Some (File b) \<Rightarrow>
          (case zip_namelist env b of
             Raises e \<Rightarrow> extract_error st e
           | Returns members \<Rightarrow>
               (case extract_members extract_to (length members) 1 members st of
                  (Some e, st1) \<Rightarrow> extract_error st1 e
                | (None, st1) \<Rightarrow> (True, st1))))"

section \<open>\<^verbatim>\<open>auto_download_model\<close>\<close>

definition CANDIDATE_URLS :: "string list" where
  "CANDIDATE_URLS =
     [''https://alphacephei.com/vosk/models/vosk-model-small-en-us-0.15.zip'',
      ''https://alphacephei.com/kaldi/models/vosk-model-small-en-us-0.15.zip'',
      ''https://huggingface.co/ambind/vosk-model-small-en-us-0.15/resolve/main/vosk-model-small-en-us-0.15.zip'']"

definition CONFIG_model_target_dir :: path where
  "CONFIG_model_target_dir = join ''models'' ''vosk-model-small-en-us-0.15''"

text \<open>\<^verbatim>\<open>try: os.remove(zip_path)\<close> with the exception swallowed.\<close>

definition remove_zip :: "prov \<Rightarrow> path \<Rightarrow> prov" where
  "remove_zip st zip_path =
     (case os_remove (p_fs st) zip_path of
        Raises e \<Rightarrow> st
      | Returns fs1 \<Rightarrow> set_fs st fs1)"

text \<open>
  The move of the extracted directory to the target, when the two differ: an existing
  target is removed first; an exception of \<^verbatim>\<open>rmtree\<close> or \<^verbatim>\<open>move\<close> is swallowed.
\<close>

definition install_dir :: "prov \<Rightarrow> path \<Rightarrow> path \<Rightarrow> prov" where
  "install_dir st found target_dir =
     (if found = target_dir then st
      else if path_exists (p_fs st) target_dir
      then (case rmtree (p_fs st) target_dir of
              Raises e \<Rightarrow> st
            | Returns fs1 \<Rightarrow>
                (case shutil_move fs1 found target_dir of
                   Raises e \<Rightarrow> set_fs st fs1
                 | Returns fs2 \<Rightarrow> set_fs (set_fs st fs1) fs2))
      else (case shutil_move (p_fs st) found target_dir of
              Raises e \<Rightarrow> st
            | Returns fs2 \<Rightarrow> set_fs st fs2))"

text \<open>
  The part of the loop body after a successful download: extract into the parent
  directory, look for the directory named \<^verbatim>\<open>CONFIG["model_name"]\<close>, else for the first
  listed directory whose name starts with \<^verbatim>\<open>vosk-model\<close>; delete the archive, report,
  move. The boolean says whether the function returns \<^verbatim>\<open>True\<close> here; otherwise the loop
  goes on with the next URL.
\<close>

definition install_download :: "prov_env \<Rightarrow> path \<Rightarrow> path \<Rightarrow> prov \<Rightarrow> bool \<times> prov" where
  "install_download env target_dir zip_path st2 =
     (let st3 = status_cb st2 (None, 0, Some 0, ''Extracting model...'') in
      case extract_zip env zip_path (dirname target_dir) st3 of
        (ok2, st4) \<Rightarrow>
          if \<not> ok2 then (False, st4)
          else
            (let possible = join (dirname target_dir) CONFIG_model_name in
             if isdir (p_fs st4) possible
             then (True,
                   install_dir
                     (status_cb (remove_zip st4 zip_path) (Some 100, 0, Some 0, ''Model ready''))
                     possible target_dir)
             else
               (case find (\<lambda>nm. take 10 nm = ''vosk-model''
                               \<and> isdir (p_fs st4) (join (dirname target_dir) nm))
                          (listdir (p_fs st4) (dirname target_dir)) of
                  None \<Rightarrow> (False, st4)
                | Some nm \<Rightarrow>
                    (let found = join (dirname target_dir) nm in
                     (True,
                      install_dir
                        (status_cb (remove_zip st4 zip_path)
                           (Some 100, 0, Some 0, ''Model ready ('' @ basename found @ '')''))
                        found target_dir)))))"

text \<open>\<^verbatim>\<open>for url in urls:\<close> with the final report when every URL has been tried.\<close>

fun url_loop :: "prov_env \<Rightarrow> path \<Rightarrow> path \<Rightarrow> string list \<Rightarrow> prov \<Rightarrow> bool \<times> prov" where
  "url_loop env target_dir zip_path [] st =
     (False, status_cb st (None, 0, Some 0, ''All downloads failed''))"
| "url_loop env target_dir zip_path (url # urls) st =
     (case download_with_progress env url zip_path
             (status_cb st (None, 0, Some 0, ''Trying: '' @ url)) of
        (ok, st2) \<Rightarrow>
          if \<not> ok then url_loop env target_dir zip_path urls st2
          else
            (case install_download env target_dir zip_path st2 of
               (done, st4) \<Rightarrow>
                 if done then (True, st4) else url_loop env target_dir zip_path urls st4))"

text \<open>
  The function itself. \<^verbatim>\<open>os.makedirs\<close> stands outside every \<^verbatim>\<open>try\<close>: its exception
  leaves the function, which is the result \<open>Raises\<close>.
\<close>

definition auto_download_model ::
  "prov_env \<Rightarrow> path \<Rightarrow> string list \<Rightarrow> prov \<Rightarrow> bool outcome \<times> prov" where
  "auto_download_model env target_dir urls st =
     (if isdir (p_fs st) target_dir
      then (Returns True, status_cb st (Some 100, 0, Some 0, ''Model already present''))
      else
        (case makedirs (p_fs st) (dirname target_dir) of
           Raises e \<Rightarrow> (Raises e, st)
         | Returns fs1 \<Rightarrow>
             (case url_loop env target_dir (join (dirname target_dir) CONFIG_model_zip) urls
                     (set_fs st fs1) of
                (ok, st2) \<Rightarrow> (Returns ok, st2))))"

text \<open>
  The mirrors before the one that succeeds: every URL of the list is tried in turn and its
  download fails. The boolean says that all of them failed; the state is the one reached.
\<close>

fun failed_attempts :: "prov_env \<Rightarrow> path \<Rightarrow> string list \<Rightarrow> prov \<Rightarrow> bool \<times> prov" where
  "failed_attempts env zip_path [] st = (True, st)"
| "failed_attempts env zip_path (url # urls) st =
     (case download_with_progress env url zip_path
             (status_cb st (None, 0, Some 0, ''Trying: '' @ url)) of
        (ok, st2) \<Rightarrow> if ok then (False, st2) else failed_attempts env zip_path urls st2)"

text \<open>The file systems a step has produced: the history added between two states.\<close>

definition new_states :: "prov \<Rightarrow> prov \<Rightarrow> filesystem list" where
  "new_states st st' = drop (length (p_hist st)) (p_hist st')"

section \<open>Fixtures for the provisioning scenarios\<close>

text \<open>
  Three mirrors: the first sends three bytes and then fails, the second refuses the
  request, the third delivers a four-byte archive that holds the model directory with one
  file.
\<close>

definition flaky_env :: prov_env where
  "flaky_env =
     \<lparr> fetch = (\<lambda>u.
         if u = CANDIDATE_URLS ! 0
         then Returns \<lparr> content_length = Some ''6'',
                        body = [Data [1, 2, 3], ReadError ''connection reset''] \<rparr>
         else if u = CANDIDATE_URLS ! 1 then Raises ''HTTP Error 404''
         else Returns \<lparr> content_length = Some ''4'',
                        body = [Data [80, 75], Data [5, 6], Data []] \<rparr>),
       zip_namelist = (\<lambda>b.
         if b = [80, 75, 5, 6]
         then Returns [(''vosk-model-small-en-us-0.15/'', Dir),
                       (''vosk-model-small-en-us-0.15/README'', File [7])]
         else Raises ''File is not a zip file'') \<rparr>"

text \<open>A provisioner state over a given file system, with empty logs.\<close>

definition fresh :: "filesystem \<Rightarrow> prov" where
  "fresh fs = \<lparr> p_fs = fs, p_hist = [], p_net = [], p_calls = [] \<rparr>"

text \<open>The archive path \<^verbatim>\<open>os.path.join(os.path.dirname(target_dir), CONFIG["model_zip"])\<close>.\<close>

definition zip_path_of :: "path \<Rightarrow> path" where
  "zip_path_of target_dir = join (dirname target_dir) CONFIG_model_zip"

definition models_only :: prov where
  "models_only = fresh [(''models'', Dir)]"

definition app_zip_path :: path where
  "app_zip_path = zip_path_of CONFIG_model_target_dir"

text \<open>The callback arguments that announce an attempt, and the first mirror's response.\<close>

definition trying :: "string \<Rightarrow> progress" where
  "trying url = (None, 0, Some 0, ''Trying: '' @ url)"

definition first_response :: response where
  "first_response = \<lparr> content_length = Some ''6'',
      body = [Data [1, 2, 3], ReadError ''connection reset''] \<rparr>"

text \<open>
  Two file systems in which the target directory exists: one where it is empty, one where
  it holds a file; and the callback arguments of the early return.
\<close>

definition empty_target :: prov where
  "empty_target = fresh [(''models'', Dir), (CONFIG_model_target_dir, Dir)]"

definition populated_target :: prov where
  "populated_target =
     fresh [(''models'', Dir), (CONFIG_model_target_dir, Dir),
            (join CONFIG_model_target_dir ''README'', File [7])]"

definition already_present :: progress where
  "already_present = (Some 100, 0, Some 0, ''Model already present'')"

section \<open>Verified properties\<close>

subsection \<open>Frame size\<close>

lemma py_int_div_nonneg:
  assumes "0 \<le> a"
  shows "py_int (real_of_int a / 1000) = a div 1000"
proof -
  have "0 \<le> real_of_int a / 1000" using assms by simp
  moreover have "\<lfloor>real_of_int a / 1000\<rfloor> = a div 1000"
    using floor_divide_of_int_eq [of a 1000, where ?'a = real] by simp
  ultimately show ?thesis by (simp add: py_int_def)
qed

lemma py_int_div_neg:
  assumes "a < 0"
  shows "py_int (real_of_int a / 1000) = - ((- a) div 1000)"
proof -
  have neg: "\<not> 0 \<le> real_of_int a / 1000" using assms by simp
  have "\<lceil>real_of_int a / 1000\<rceil> = - \<lfloor>real_of_int (- a) / 1000\<rfloor>"
    by (simp add: ceiling_def)
  also have "\<lfloor>real_of_int (- a) / 1000\<rfloor> = (- a) div 1000"
    using floor_divide_of_int_eq [of "- a" 1000, where ?'a = real] by simp
  finally show ?thesis using neg by (simp add: py_int_def)
qed

text \<open>
  Claim C9. For every sample rate and frame duration the constructor stores
  \<open>max 1 (trunc (rate * chunk_ms / 1000))\<close> samples per frame, the truncation being toward
  zero (integer division of the magnitude); a frame is never shorter than one sample and
  takes two bytes per sample. At 16000 Hz and 20 ms a frame has 320 samples, 640 bytes.
\<close>

theorem C9_frame_size:
  "cap_chunk (LowLatencyCapture_init rate ms dev pa) =
     max 1 (sgn (rate * ms) * (\<bar>rate * ms\<bar> div 1000))
   \<and> 1 \<le> cap_chunk (LowLatencyCapture_init rate ms dev pa)
   \<and> read_size_bytes (LowLatencyCapture_init rate ms dev pa) =
       2 * cap_chunk (LowLatencyCapture_init rate ms dev pa)
   \<and> cap_chunk (LowLatencyCapture_init 16000 20 dev pa) = 320
   \<and> read_size_bytes (LowLatencyCapture_init 16000 20 dev pa) = 640"
proof -
  have general: "py_int (real_of_int rate * real_of_int ms / 1000)
      = sgn (rate * ms) * (\<bar>rate * ms\<bar> div 1000)" for rate ms :: int
  proof -
    have "py_int (real_of_int (rate * ms) / 1000) = sgn (rate * ms) * (\<bar>rate * ms\<bar> div 1000)"
    proof (cases "0 \<le> rate * ms")
      case True
      then show ?thesis
        unfolding py_int_div_nonneg [OF True] by (simp add: sgn_if)
    next
      case False
      then have neg: "rate * ms < 0" by simp
      show ?thesis
        unfolding py_int_div_neg [OF neg] using neg by (simp add: sgn_if)
    qed
    then show ?thesis by (simp only: of_int_mult)
  qed
  have chunk: "cap_chunk (LowLatencyCapture_init r m dev pa)
      = max 1 (sgn (r * m) * (\<bar>r * m\<bar> div 1000))" for r m
    using general [of r m] by (simp add: LowLatencyCapture_init_def)
  have c320: "cap_chunk (LowLatencyCapture_init 16000 20 dev pa) = 320"
    unfolding chunk by simp
  show ?thesis
    using chunk [of rate ms] c320
    by (simp add: read_size_bytes_def paInt16_sample_width_def open_channels_def)
qed

subsection \<open>The streaming decode loop\<close>

lemma iteration_split:
  "VoskStreamer_iteration s mq ob = (fst (VoskStreamer_iteration s [] ob), mq @ emitted s ob)"
  by (auto simp: VoskStreamer_iteration_def emitted_def Let_def
      split: list.splits reply.splits outcome.splits option.splits)

lemma iteration_fields:
  "vs_running (fst (VoskStreamer_iteration s mq ob)) = vs_running s"
  "vs_partial_interval_ms (fst (VoskStreamer_iteration s mq ob)) = vs_partial_interval_ms s"
  "vs_rec (fst (VoskStreamer_iteration s mq ob)) = vs_rec s"
  "vs_queue (fst (VoskStreamer_iteration s mq ob)) = tl (vs_queue s)"
  by (auto simp: VoskStreamer_iteration_def Let_def
      split: list.splits reply.splits outcome.splits option.splits)

lemma emitted_partial_iff:
  "filter is_partial (emitted s ob) \<noteq> [] \<longleftrightarrow>
     (\<exists>b rest t. vs_queue s = b # rest \<and> o_reply ob = NotAccepted (Returns (Some t)) \<and> strip t \<noteq> []
        \<and> real_of_int (vs_partial_interval_ms s) \<le> o_now ob - vs_last_partial_time s)"
  by (auto simp: VoskStreamer_iteration_def emitted_def Let_def
      split: list.splits reply.splits outcome.splits option.splits)

lemma iteration_last:
  "vs_last_partial_time (fst (VoskStreamer_iteration s mq ob)) =
     (if filter is_partial (emitted s ob) \<noteq> [] then o_now ob else vs_last_partial_time s)"
  by (auto simp: VoskStreamer_iteration_def emitted_def Let_def
      split: list.splits reply.splits outcome.splits option.splits)

lemma emit_times_lower:
  "0 \<le> vs_partial_interval_ms s \<Longrightarrow> t \<in> set (emit_times s obs) \<Longrightarrow>
     real_of_int (vs_partial_interval_ms s) \<le> t - vs_last_partial_time s"
proof (induction obs arbitrary: s)
  case Nil
  then show ?case by simp
next
  case (Cons ob obs)
  let ?s' = "fst (VoskStreamer_iteration s [] ob)"
  have iv: "vs_partial_interval_ms ?s' = vs_partial_interval_ms s" by (rule iteration_fields)
  show ?case
  proof (cases "filter is_partial (emitted s ob) \<noteq> []")
    case True
    then have gap: "real_of_int (vs_partial_interval_ms s) \<le> o_now ob - vs_last_partial_time s"
      by (auto simp: emitted_partial_iff)
    have last: "vs_last_partial_time ?s' = o_now ob" using True by (simp add: iteration_last)
    from Cons.prems(2) True consider "t = o_now ob" | "t \<in> set (emit_times ?s' obs)" by auto
    then show ?thesis
    proof cases
      case 1
      then show ?thesis using gap by simp
    next
      case 2
      from Cons.IH [OF _ 2] Cons.prems(1) iv last
      have "real_of_int (vs_partial_interval_ms s) \<le> t - o_now ob" by simp
      with gap Cons.prems(1) show ?thesis by simp
    qed
  next
    case False
    then have last: "vs_last_partial_time ?s' = vs_last_partial_time s" by (simp add: iteration_last)
    from Cons.prems(2) False have "t \<in> set (emit_times ?s' obs)" by simp
    from Cons.IH [OF _ this] Cons.prems(1) iv last show ?thesis by simp
  qed
qed

lemma emit_times_spaced:
  "0 \<le> vs_partial_interval_ms s \<Longrightarrow>
     sorted_wrt (\<lambda>a b. real_of_int (vs_partial_interval_ms s) \<le> b - a) (emit_times s obs)"
proof (induction obs arbitrary: s)
  case Nil
  then show ?case by simp
next
  case (Cons ob obs)
  let ?s' = "fst (VoskStreamer_iteration s [] ob)"
  have iv: "vs_partial_interval_ms ?s' = vs_partial_interval_ms s" by (rule iteration_fields)
  have rest: "sorted_wrt (\<lambda>a b. real_of_int (vs_partial_interval_ms s) \<le> b - a) (emit_times ?s' obs)"
    using Cons.IH [of ?s'] Cons.prems iv by simp
  show ?case
  proof (cases "filter is_partial (emitted s ob) \<noteq> []")
    case True
    then have last: "vs_last_partial_time ?s' = o_now ob" by (simp add: iteration_last)
    have "\<forall>t\<in>set (emit_times ?s' obs). real_of_int (vs_partial_interval_ms s) \<le> t - o_now ob"
      using emit_times_lower [of ?s' _ obs] Cons.prems iv last by auto
    with rest True show ?thesis by simp
  next
    case False
    with rest show ?thesis by simp
  qed
qed

lemma ready_streamer_eq:
  "ready_streamer interval frames =
     \<lparr> vs_model_path = ''models/vosk-model-small-en-us-0.15'', vs_sample_rate = 16000,
       vs_partial_interval_ms = interval, vs_model = Some 0, vs_rec = Some 1,
       vs_queue = frames, vs_running = True, vs_last_partial_time = 0, vs_loops_spawned = 1 \<rparr>"
proof -
  have feed: "foldl VoskStreamer_feed s fs = s\<lparr>vs_queue := vs_queue s @ fs\<rparr>" for s fs
    by (induction fs arbitrary: s) (simp_all add: VoskStreamer_feed_def)
  show ?thesis
    by (simp add: ready_streamer_def feed good_env_def VoskStreamer_load_def VoskStreamer_init_def
        VoskStreamer_start_def CONFIG_sample_rate_def)
qed

lemma strip_hello: "strip ''hello'' = ''hello''"
  by (simp add: strip_def is_space_def)

lemma loop_run_events:
  "vs_running s \<Longrightarrow>
     length (filter is_partial (snd (VoskStreamer_loop_run s mq obs)))
       = length (filter is_partial mq) + length (emit_times s obs)"
proof (induction obs arbitrary: s mq)
  case Nil
  then show ?case by simp
next
  case (Cons ob obs)
  let ?s' = "fst (VoskStreamer_iteration s [] ob)"
  have run: "vs_running ?s'" using Cons.prems by (simp add: iteration_fields)
  have one: "length (filter is_partial (emitted s ob)) = (if filter is_partial (emitted s ob) \<noteq> [] then 1 else 0)"
    by (auto simp: VoskStreamer_iteration_def emitted_def Let_def
        split: list.splits reply.splits outcome.splits option.splits)
  have "VoskStreamer_loop_run s mq (ob # obs) = VoskStreamer_loop_run ?s' (mq @ emitted s ob) obs"
    using Cons.prems iteration_split [of s mq ob] by simp
  then show ?case using Cons.IH [OF run, of "mq @ emitted s ob"] one by simp
qed

text \<open>
  Claim C3, as stated, at the scenario's own clock readings. The constructor initialises
  \<^verbatim>\<open>_last_partial_time\<close> to \<open>0.0\<close>, so a partial arriving at clock reading 0 is only
  \<open>0\<close> ms after "the last one" and is suppressed: with readings 0, 50, 100, 160 and an
  interval of 80 the loop emits one partial, at 100, not the two at 0 and 100.
\<close>

theorem C3_counterexample:
  "emit_times (ready_streamer 80 [[], [], [], []])
     [partial_at ''hello'' 0, partial_at ''hello'' 50, partial_at ''hello'' 100, partial_at ''hello'' 160]
     = [100]
   \<and> snd (VoskStreamer_loop_run (ready_streamer 80 [[], [], [], []]) []
     [partial_at ''hello'' 0, partial_at ''hello'' 50, partial_at ''hello'' 100, partial_at ''hello'' 160])
     = [Partial ''hello'']
   \<and> emit_times (ready_streamer 80 [[], [], [], []])
     [partial_at ''hello'' 0, partial_at ''hello'' 50, partial_at ''hello'' 100, partial_at ''hello'' 160]
     \<noteq> [0, 100]"
  by (simp add: ready_streamer_eq partial_at_def emitted_def VoskStreamer_iteration_def strip_hello)

text \<open>
  Claim C3, amended. A partial is put on the queue only if its stripped text is non-empty
  and at least \<^verbatim>\<open>partial_interval_ms\<close> lie between the clock reading and
  \<^verbatim>\<open>_last_partial_time\<close> (the reading of the last emitted partial, \<open>0\<close> before the first);
  for a non-negative interval any two emitted partials of a run are at least the interval
  apart, and the run's partial events are exactly those emissions; and for readings
  \<open>T\<close>, \<open>T + 50\<close>, \<open>T + 100\<close>, \<open>T + 160\<close> with \<open>T \<ge> 80\<close> (any wall-clock reading) and
  an interval of 80, the partials are emitted at \<open>T\<close> and \<open>T + 100\<close> only.
\<close>

theorem C3_partial_rate_limit:
  "(Partial p \<in> set (emitted s ob) \<longrightarrow>
      p \<noteq> [] \<and> real_of_int (vs_partial_interval_ms s) \<le> o_now ob - vs_last_partial_time s)
   \<and> (0 \<le> vs_partial_interval_ms s \<longrightarrow>
      sorted_wrt (\<lambda>a b. real_of_int (vs_partial_interval_ms s) \<le> b - a) (emit_times s obs))
   \<and> (vs_running s \<longrightarrow>
      length (filter is_partial (snd (VoskStreamer_loop_run s [] obs))) = length (emit_times s obs))
   \<and> (strip q \<noteq> [] \<and> 80 \<le> T \<longrightarrow>
      emit_times (ready_streamer 80 [f1, f2, f3, f4])
        [partial_at q T, partial_at q (T + 50), partial_at q (T + 100), partial_at q (T + 160)]
        = [T, T + 100])"
proof -
  have a: "Partial p \<in> set (emitted s ob) \<longrightarrow>
      p \<noteq> [] \<and> real_of_int (vs_partial_interval_ms s) \<le> o_now ob - vs_last_partial_time s"
    by (auto simp: VoskStreamer_iteration_def emitted_def Let_def
        split: list.splits reply.splits outcome.splits option.splits if_splits)
  have b: "0 \<le> vs_partial_interval_ms s \<longrightarrow>
      sorted_wrt (\<lambda>a b. real_of_int (vs_partial_interval_ms s) \<le> b - a) (emit_times s obs)"
    using emit_times_spaced by blast
  have c: "vs_running s \<longrightarrow>
      length (filter is_partial (snd (VoskStreamer_loop_run s [] obs))) = length (emit_times s obs)"
    using loop_run_events [of s "[]" obs] by simp
  have d: "strip q \<noteq> [] \<and> 80 \<le> T \<longrightarrow>
      emit_times (ready_streamer 80 [f1, f2, f3, f4])
        [partial_at q T, partial_at q (T + 50), partial_at q (T + 100), partial_at q (T + 160)]
        = [T, T + 100]"
    by (simp add: ready_streamer_eq partial_at_def emitted_def VoskStreamer_iteration_def)
  from a b c d show ?thesis by blast
qed

theorem C3_partial_rate_limit_witness:
  "Partial ''hello'' \<in> set (emitted (ready_streamer 80 [[]]) (partial_at ''hello'' 100))
   \<and> (0::int) \<le> vs_partial_interval_ms (ready_streamer 80 [[]])
   \<and> vs_running (ready_streamer 80 [[]])
   \<and> strip ''hello'' \<noteq> [] \<and> (80::real) \<le> 1000
   \<and> real_of_int (vs_partial_interval_ms (ready_streamer 80 [[]]))
        \<le> o_now (partial_at ''hello'' 100) - vs_last_partial_time (ready_streamer 80 [[]])
   \<and> sorted_wrt (\<lambda>a b. real_of_int (vs_partial_interval_ms (ready_streamer 80 [[]])) \<le> b - a)
        (emit_times (ready_streamer 80 [[]]) [partial_at ''hello'' 100])
   \<and> length (filter is_partial (snd (VoskStreamer_loop_run (ready_streamer 80 [[]]) []
        [partial_at ''hello'' 100]))) = length (emit_times (ready_streamer 80 [[]]) [partial_at ''hello'' 100])
   \<and> emit_times (ready_streamer 80 [[], [], [], []])
        [partial_at ''hello'' 1000, partial_at ''hello'' (1000 + 50), partial_at ''hello'' (1000 + 100),
         partial_at ''hello'' (1000 + 160)] = [1000, 1000 + 100]"
proof -
  have h1: "Partial ''hello'' \<in> set (emitted (ready_streamer 80 [[]]) (partial_at ''hello'' 100))"
    by (simp add: ready_streamer_eq partial_at_def emitted_def VoskStreamer_iteration_def strip_hello)
  have h2: "(0::int) \<le> vs_partial_interval_ms (ready_streamer 80 [[]])"
    by (simp add: ready_streamer_eq)
  have h3: "vs_running (ready_streamer 80 [[]])" by (simp add: ready_streamer_eq)
  have h4: "strip ''hello'' \<noteq> [] \<and> (80::real) \<le> 1000" by (simp add: strip_hello)
  show ?thesis
    using C3_partial_rate_limit [of "''hello''" "ready_streamer 80 [[]]" "partial_at ''hello'' 100"
        "[partial_at ''hello'' 100]" "''hello''" 1000 "[]" "[]" "[]" "[]"] h1 h2 h3 h4
    by blast
qed

text \<open>
  Claim C10. An iteration in which the decoder signals an utterance boundary leaves
  \<^verbatim>\<open>_last_partial_time\<close> as it was, so the limiter spans utterances: after a partial
  emitted at \<open>t1\<close> and a final, the first partial of the next utterance, arriving at \<open>t3\<close>
  with \<open>t3 - t1\<close> below the interval, is suppressed.
\<close>

theorem C10_limiter_spans_utterances:
  "(o_reply ob = Accepted r \<longrightarrow>
      vs_last_partial_time (fst (VoskStreamer_iteration s mq ob)) = vs_last_partial_time s)
   \<and> (vs_running s \<and> vs_queue s = f1 # f2 # f3 # rest
        \<and> strip p1 \<noteq> [] \<and> strip txt \<noteq> [] \<and> strip p3 \<noteq> []
        \<and> real_of_int (vs_partial_interval_ms s) \<le> t1 - vs_last_partial_time s
        \<and> t3 - t1 < real_of_int (vs_partial_interval_ms s) \<longrightarrow>
      snd (VoskStreamer_loop_run s [] [partial_at p1 t1, final_at txt stamp t2, partial_at p3 t3])
        = [Partial (strip p1), Transcription (strip txt) stamp]
      \<and> vs_last_partial_time
          (fst (VoskStreamer_loop_run s [] [partial_at p1 t1, final_at txt stamp t2])) = t1)"
proof -
  have a: "o_reply ob = Accepted r \<longrightarrow>
      vs_last_partial_time (fst (VoskStreamer_iteration s mq ob)) = vs_last_partial_time s"
    by (auto simp: VoskStreamer_iteration_def Let_def split: list.splits outcome.splits option.splits)
  have b: "vs_running s \<and> vs_queue s = f1 # f2 # f3 # rest
        \<and> strip p1 \<noteq> [] \<and> strip txt \<noteq> [] \<and> strip p3 \<noteq> []
        \<and> real_of_int (vs_partial_interval_ms s) \<le> t1 - vs_last_partial_time s
        \<and> t3 - t1 < real_of_int (vs_partial_interval_ms s) \<longrightarrow>
      snd (VoskStreamer_loop_run s [] [partial_at p1 t1, final_at txt stamp t2, partial_at p3 t3])
        = [Partial (strip p1), Transcription (strip txt) stamp]
      \<and> vs_last_partial_time
          (fst (VoskStreamer_loop_run s [] [partial_at p1 t1, final_at txt stamp t2])) = t1"
    by (simp add: partial_at_def final_at_def VoskStreamer_iteration_def)
  from a b show ?thesis by blast
qed

theorem C10_limiter_spans_utterances_witness:
  "o_reply (final_at ''good morning'' ''09:00:00'' 1040) = Accepted (Returns (Some ''good morning''))
   \<and> vs_running (ready_streamer 80 [[], [], []])
   \<and> vs_queue (ready_streamer 80 [[], [], []]) = [] # [] # [] # []
   \<and> strip ''good'' \<noteq> [] \<and> strip ''good morning'' \<noteq> [] \<and> strip ''hello'' \<noteq> []
   \<and> real_of_int (vs_partial_interval_ms (ready_streamer 80 [[], [], []]))
        \<le> 1000 - vs_last_partial_time (ready_streamer 80 [[], [], []])
   \<and> (1060::real) - 1000 < real_of_int (vs_partial_interval_ms (ready_streamer 80 [[], [], []]))
   \<and> vs_last_partial_time (fst (VoskStreamer_iteration (ready_streamer 80 [[], [], []]) []
        (final_at ''good morning'' ''09:00:00'' 1040)))
        = vs_last_partial_time (ready_streamer 80 [[], [], []])
   \<and> snd (VoskStreamer_loop_run (ready_streamer 80 [[], [], []]) []
        [partial_at ''good'' 1000, final_at ''good morning'' ''09:00:00'' 1040, partial_at ''hello'' 1060])
        = [Partial (strip ''good''), Transcription (strip ''good morning'') ''09:00:00'']"
proof -
  have h1: "o_reply (final_at ''good morning'' ''09:00:00'' 1040)
      = Accepted (Returns (Some ''good morning''))"
    by (simp add: final_at_def)
  have h2: "vs_running (ready_streamer 80 [[], [], []])
     \<and> vs_queue (ready_streamer 80 [[], [], []]) = [] # [] # [] # []
     \<and> strip ''good'' \<noteq> [] \<and> strip ''good morning'' \<noteq> [] \<and> strip ''hello'' \<noteq> []
     \<and> real_of_int (vs_partial_interval_ms (ready_streamer 80 [[], [], []]))
          \<le> 1000 - vs_last_partial_time (ready_streamer 80 [[], [], []])
     \<and> (1060::real) - 1000 < real_of_int (vs_partial_interval_ms (ready_streamer 80 [[], [], []]))"
    by (simp add: ready_streamer_eq strip_def is_space_def)
  show ?thesis
    using C10_limiter_spans_utterances [of "final_at ''good morning'' ''09:00:00'' 1040"
        "Returns (Some ''good morning'')" "ready_streamer 80 [[], [], []]" "[]"
        "[]" "[]" "[]" "[]" "''good''" "''good morning''" "''hello''" 1000 1060 "''09:00:00''" 1040]
      h1 h2
    by blast
qed

lemma loop_run_append:
  "VoskStreamer_loop_run s mq (obs1 @ obs2) =
     (case VoskStreamer_loop_run s mq obs1 of (s1, mq1) \<Rightarrow>
        if vs_running s then VoskStreamer_loop_run s1 mq1 obs2 else (s, mq))"
proof (induction obs1 arbitrary: s mq)
  case Nil
  then show ?case by (cases obs2) simp_all
next
  case (Cons ob obs1)
  show ?case
  proof (cases "vs_running s")
    case True
    obtain s' mq' where it: "VoskStreamer_iteration s mq ob = (s', mq')" by force
    have "vs_running s'" using iteration_fields(1) [of s mq ob] it True by simp
    then show ?thesis using True it Cons.IH [of s' mq'] by simp
  next
    case False
    then show ?thesis by simp
  qed
qed

lemma loop_run_consumes:
  "vs_running s \<Longrightarrow>
     vs_running (fst (VoskStreamer_loop_run s mq obs))
     \<and> vs_queue (fst (VoskStreamer_loop_run s mq obs)) = drop (length obs) (vs_queue s)"
proof (induction obs arbitrary: s mq)
  case Nil
  then show ?case by simp
next
  case (Cons ob obs)
  obtain s' mq' where it: "VoskStreamer_iteration s mq ob = (s', mq')" by force
  have run: "vs_running s'" and q: "vs_queue s' = tl (vs_queue s)"
    using iteration_fields(1,4) [of s mq ob] it Cons.prems by simp_all
  show ?case using Cons.IH [OF run, of mq'] Cons.prems it q by (simp add: drop_Suc)
qed

text \<open>
  Claim C6. An iteration whose decoder call raises consumes its frame and puts exactly one
  status event (\<^verbatim>\<open>VOSK error: ...\<close>, error colour) on the queue; the loop goes on: a
  run over \<open>before @ ob # after\<close> is the run over \<open>before\<close>, the failing iteration, then
  the run over \<open>after\<close> from the state reached, it is still running at the end and has
  taken one frame per iteration from its queue.
\<close>

theorem C6_decode_error_keeps_loop:
  "(vs_queue s = bts # rest \<and> decode_raises (o_reply ob) e \<longrightarrow>
      VoskStreamer_iteration s mq ob =
        (s\<lparr>vs_queue := rest\<rparr>, mq @ [Status (''VOSK error: '' @ e) CONFIG_error]))
   \<and> (vs_running s \<and> decode_raises (o_reply ob) e \<longrightarrow>
      VoskStreamer_loop_run s mq (before @ ob # after) =
        (case VoskStreamer_loop_run s mq before of (s1, mq1) \<Rightarrow>
           case VoskStreamer_iteration s1 mq1 ob of (s2, mq2) \<Rightarrow>
             VoskStreamer_loop_run s2 mq2 after)
      \<and> vs_running (fst (VoskStreamer_loop_run s mq (before @ ob # after)))
      \<and> vs_queue (fst (VoskStreamer_loop_run s mq (before @ ob # after)))
           = drop (length before + 1 + length after) (vs_queue s))"
proof -
  have a: "vs_queue s = bts # rest \<and> decode_raises (o_reply ob) e \<longrightarrow>
      VoskStreamer_iteration s mq ob =
        (s\<lparr>vs_queue := rest\<rparr>, mq @ [Status (''VOSK error: '' @ e) CONFIG_error])"
    by (auto simp: VoskStreamer_iteration_def decode_raises_def)
  have b: "VoskStreamer_loop_run s mq (before @ ob # after) =
        (case VoskStreamer_loop_run s mq before of (s1, mq1) \<Rightarrow>
           case VoskStreamer_iteration s1 mq1 ob of (s2, mq2) \<Rightarrow>
             VoskStreamer_loop_run s2 mq2 after)" if run: "vs_running s"
  proof -
    obtain s1 mq1 where r1: "VoskStreamer_loop_run s mq before = (s1, mq1)" by force
    have "vs_running s1" using loop_run_consumes [OF run, of mq before] r1 by simp
    then show ?thesis using r1 run by (simp add: loop_run_append split: prod.splits)
  qed
  have c: "vs_running (fst (VoskStreamer_loop_run s mq (before @ ob # after)))
      \<and> vs_queue (fst (VoskStreamer_loop_run s mq (before @ ob # after)))
           = drop (length before + 1 + length after) (vs_queue s)" if run: "vs_running s"
    using loop_run_consumes [OF run, of mq "before @ ob # after"] by simp
  from a b c show ?thesis by blast
qed

theorem C6_decode_error_keeps_loop_witness:
  "vs_queue (ready_streamer 80 [[1], [2], [3]]) = [1] # [[2], [3]]
   \<and> decode_raises (o_reply (raising_at ''bad frame'' 1020)) ''bad frame''
   \<and> vs_running (ready_streamer 80 [[1], [2], [3]])
   \<and> VoskStreamer_iteration (ready_streamer 80 [[1], [2], [3]]) [] (raising_at ''bad frame'' 1020)
       = ((ready_streamer 80 [[1], [2], [3]])\<lparr>vs_queue := [[2], [3]]\<rparr>,
          [] @ [Status (''VOSK error: '' @ ''bad frame'') CONFIG_error])
   \<and> snd (VoskStreamer_loop_run (ready_streamer 80 [[1], [2], [3]]) []
        ([partial_at ''hello'' 1000] @ raising_at ''bad frame'' 1020 # [final_at ''hello'' ''09:00:00'' 1040]))
       = [Partial ''hello'', Status ''VOSK error: bad frame'' CONFIG_error,
          Transcription ''hello'' ''09:00:00'']
   \<and> vs_queue (fst (VoskStreamer_loop_run (ready_streamer 80 [[1], [2], [3]]) []
        ([partial_at ''hello'' 1000] @ raising_at ''bad frame'' 1020 # [final_at ''hello'' ''09:00:00'' 1040])))
       = drop (length [partial_at ''hello'' 1000] + 1 + length [final_at ''hello'' ''09:00:00'' 1040])
           (vs_queue (ready_streamer 80 [[1], [2], [3]]))"
proof -
  have h1: "vs_queue (ready_streamer 80 [[1], [2], [3]]) = [1] # [[2], [3]]"
    by (simp add: ready_streamer_eq)
  have h2: "decode_raises (o_reply (raising_at ''bad frame'' 1020)) ''bad frame''"
    by (simp add: decode_raises_def raising_at_def)
  have h3: "vs_running (ready_streamer 80 [[1], [2], [3]])"
    by (simp add: ready_streamer_eq)
  have ev: "snd (VoskStreamer_loop_run (ready_streamer 80 [[1], [2], [3]]) []
        ([partial_at ''hello'' 1000] @ raising_at ''bad frame'' 1020 # [final_at ''hello'' ''09:00:00'' 1040]))
       = [Partial ''hello'', Status ''VOSK error: bad frame'' CONFIG_error,
          Transcription ''hello'' ''09:00:00'']"
    by (simp add: ready_streamer_eq partial_at_def raising_at_def final_at_def
        VoskStreamer_iteration_def strip_hello)
  show ?thesis
    using C6_decode_error_keeps_loop [of "ready_streamer 80 [[1], [2], [3]]" "[1]" "[[2], [3]]"
        "raising_at ''bad frame'' 1020" "''bad frame''" "[]" "[partial_at ''hello'' 1000]"
        "[final_at ''hello'' ''09:00:00'' 1040]"] h1 h2 h3 ev
    by blast
qed

subsection \<open>Loading and starting the streamer\<close>

text \<open>
  Claim C7. \<^verbatim>\<open>start\<close> changes nothing (no flag set, no thread created) while the
  recognizer handle is absent. \<^verbatim>\<open>load\<close> returns true exactly when the import succeeds,
  the model path is a directory and the decoder accepts the model; a load that returns
  false leaves the handle, the running flag and the thread count as they were. A new
  streamer has no handle, and every operation keeps the invariant that a running streamer,
  or one that has spawned a loop, holds a handle: no loop is started before a load has
  succeeded.
\<close>

theorem C7_start_requires_load:
  "(vs_rec s = None \<longrightarrow> VoskStreamer_start s = s)
   \<and> fst (VoskStreamer_load env s mq)
       = ((\<exists>u. import_vosk env = Returns u) \<and> path_isdir env (vs_model_path s) \<and> \<not> decoder_rejects env s)
   \<and> (\<not> fst (VoskStreamer_load env s mq) \<longrightarrow>
        vs_rec (fst (snd (VoskStreamer_load env s mq))) = vs_rec s
        \<and> vs_running (fst (snd (VoskStreamer_load env s mq))) = vs_running s
        \<and> vs_loops_spawned (fst (snd (VoskStreamer_load env s mq))) = vs_loops_spawned s)
   \<and> started_after_load (VoskStreamer_init path rate interval)
   \<and> vs_rec (VoskStreamer_init path rate interval) = None
   \<and> (started_after_load s \<longrightarrow>
        started_after_load (VoskStreamer_start s)
        \<and> started_after_load (VoskStreamer_stop s)
        \<and> started_after_load (VoskStreamer_feed s bts)
        \<and> started_after_load (fst (snd (VoskStreamer_load env s mq)))
        \<and> started_after_load (fst (VoskStreamer_iteration s mq ob)))"
proof -
  have a: "vs_rec s = None \<longrightarrow> VoskStreamer_start s = s"
    by (simp add: VoskStreamer_start_def)
  have b: "fst (VoskStreamer_load env s mq)
       = ((\<exists>u. import_vosk env = Returns u) \<and> path_isdir env (vs_model_path s) \<and> \<not> decoder_rejects env s)"
    by (auto simp: VoskStreamer_load_def decoder_rejects_def Let_def split: outcome.splits)
  have c: "\<not> fst (VoskStreamer_load env s mq) \<longrightarrow>
        vs_rec (fst (snd (VoskStreamer_load env s mq))) = vs_rec s
        \<and> vs_running (fst (snd (VoskStreamer_load env s mq))) = vs_running s
        \<and> vs_loops_spawned (fst (snd (VoskStreamer_load env s mq))) = vs_loops_spawned s"
    by (auto simp: VoskStreamer_load_def Let_def split: outcome.splits)
  have d: "started_after_load (VoskStreamer_init path rate interval)
      \<and> vs_rec (VoskStreamer_init path rate interval) = None"
    by (simp add: started_after_load_def VoskStreamer_init_def)
  have e: "started_after_load s \<longrightarrow>
        started_after_load (VoskStreamer_start s)
        \<and> started_after_load (VoskStreamer_stop s)
        \<and> started_after_load (VoskStreamer_feed s bts)
        \<and> started_after_load (fst (snd (VoskStreamer_load env s mq)))
        \<and> started_after_load (fst (VoskStreamer_iteration s mq ob))"
  proof (intro impI conjI)
    assume inv: "started_after_load s"
    show "started_after_load (VoskStreamer_start s)"
      using inv by (auto simp: started_after_load_def VoskStreamer_start_def)
    show "started_after_load (VoskStreamer_stop s)"
      using inv by (auto simp: started_after_load_def VoskStreamer_stop_def)
    show "started_after_load (VoskStreamer_feed s bts)"
      using inv by (auto simp: started_after_load_def VoskStreamer_feed_def)
    show "started_after_load (fst (snd (VoskStreamer_load env s mq)))"
      using inv
      by (auto simp: started_after_load_def VoskStreamer_load_def Let_def split: outcome.splits)
    show "started_after_load (fst (VoskStreamer_iteration s mq ob))"
      using inv
      by (auto simp: started_after_load_def VoskStreamer_iteration_def Let_def
          split: list.splits reply.splits outcome.splits option.splits)
  qed
  from a b c d e show ?thesis by blast
qed

theorem C7_start_requires_load_witness:
  "vs_rec (VoskStreamer_init ''models/none'' 16000 80) = None
   \<and> \<not> fst (VoskStreamer_load missing_env (VoskStreamer_init ''models/none'' 16000 80) [])
   \<and> started_after_load (VoskStreamer_init ''models/none'' 16000 80)
   \<and> VoskStreamer_start (VoskStreamer_init ''models/none'' 16000 80)
        = VoskStreamer_init ''models/none'' 16000 80
   \<and> VoskStreamer_start (fst (snd (VoskStreamer_load missing_env
        (VoskStreamer_init ''models/none'' 16000 80) [])))
        = VoskStreamer_init ''models/none'' 16000 80
   \<and> started_after_load (VoskStreamer_start (VoskStreamer_init ''models/none'' 16000 80))"
proof -
  have h1: "vs_rec (VoskStreamer_init ''models/none'' 16000 80) = None"
    by (simp add: VoskStreamer_init_def)
  have h2: "\<not> fst (VoskStreamer_load missing_env (VoskStreamer_init ''models/none'' 16000 80) [])"
    by (simp add: VoskStreamer_load_def missing_env_def VoskStreamer_init_def)
  have h3: "started_after_load (VoskStreamer_init ''models/none'' 16000 80)"
    by (simp add: started_after_load_def VoskStreamer_init_def)
  have same: "fst (snd (VoskStreamer_load missing_env (VoskStreamer_init ''models/none'' 16000 80) []))
      = VoskStreamer_init ''models/none'' 16000 80"
    by (simp add: VoskStreamer_load_def missing_env_def VoskStreamer_init_def)
  show ?thesis
    using C7_start_requires_load [of "VoskStreamer_init ''models/none'' 16000 80" missing_env "[]"
        "''models/none''" 16000 80 "[]" "partial_at ''hello'' 0"] h1 h2 h3 same
    by simp
qed

subsection \<open>The capture loop\<close>

text \<open>
  Claim C1, evaluated on the code. The capture object of the application never receives a
  sink, so a successfully read frame gives an amplitude event and is appended to
  \<^verbatim>\<open>segment_queue\<close>, whatever the state of the streamer: with a streamer that is loaded
  and running, the frame \<open>[1, 0, 255, 255]\<close> lands in the spillover queue and the
  streamer's own queue stays empty. With \<^verbatim>\<open>_capture_sink\<close> installed as the sink the same
  frame is fed to the running streamer, as the claim describes.
\<close>

theorem C1_frames_bypass_running_streamer:
  "LowLatencyCapture_read_iteration (app_capture ms) W (ReadOk data) =
     (case frombuffer_int16 data of
        None \<Rightarrow> Raises ''buffer size must be a multiple of element size''
      | Some arr \<Rightarrow>
          Returns (W\<lparr>message_queue := message_queue W @ [Amplitude (rms arr)],
                     segment_queue := segment_queue W @ [data]\<rparr>))
   \<and> cap_sink (app_capture ms) = None
   \<and> (\<exists>vs. app_vosk_streamer streaming_world = Some vs \<and> vs_running vs \<and> vs_queue vs = [])
   \<and> LowLatencyCapture_read_iteration (app_capture 20) streaming_world (ReadOk [1, 0, 255, 255]) =
       Returns \<lparr> message_queue = [Amplitude (rms [1, - 1])],
                 segment_queue = [[1, 0, 255, 255]],
                 app_vosk_streamer = Some (ready_streamer 80 []) \<rparr>
   \<and> LowLatencyCapture_read_iteration (wired_capture 20) streaming_world (ReadOk [1, 0, 255, 255]) =
       Returns \<lparr> message_queue = [Amplitude (rms [1, - 1])],
                 segment_queue = [],
                 app_vosk_streamer = Some (ready_streamer 80 [[1, 0, 255, 255]]) \<rparr>"
proof -
  have sink: "cap_sink (app_capture ms) = None" for ms
    by (simp add: app_capture_def LowLatencyCapture_init_def)
  have a: "LowLatencyCapture_read_iteration (app_capture ms) W (ReadOk data) =
     (case frombuffer_int16 data of
        None \<Rightarrow> Raises ''buffer size must be a multiple of element size''
      | Some arr \<Rightarrow>
          Returns (W\<lparr>message_queue := message_queue W @ [Amplitude (rms arr)],
                     segment_queue := segment_queue W @ [data]\<rparr>))" for ms W data
    by (simp add: LowLatencyCapture_read_iteration_def sink put_message_def put_segment_def
        split: option.splits)
  have c: "\<exists>vs. app_vosk_streamer streaming_world = Some vs \<and> vs_running vs \<and> vs_queue vs = []"
    by (simp add: streaming_world_def ready_streamer_eq)
  have samples: "frombuffer_int16 [1, 0, 255, 255] = Some [1, - 1]"
    by (simp add: int16_le_def)
  have d: "LowLatencyCapture_read_iteration (app_capture 20) streaming_world (ReadOk [1, 0, 255, 255]) =
       Returns \<lparr> message_queue = [Amplitude (rms [1, - 1])],
                 segment_queue = [[1, 0, 255, 255]],
                 app_vosk_streamer = Some (ready_streamer 80 []) \<rparr>"
    unfolding a samples by (simp add: streaming_world_def)
  have e: "LowLatencyCapture_read_iteration (wired_capture 20) streaming_world (ReadOk [1, 0, 255, 255]) =
       Returns \<lparr> message_queue = [Amplitude (rms [1, - 1])],
                 segment_queue = [],
                 app_vosk_streamer = Some (ready_streamer 80 [[1, 0, 255, 255]]) \<rparr>"
    by (simp add: LowLatencyCapture_read_iteration_def wired_capture_def int16_le_def put_message_def
        capture_sink_def streaming_world_def ready_streamer_eq VoskStreamer_feed_def)
  from a [of ms W data] sink [of ms] c d e show ?thesis by blast
qed

subsection \<open>The fallback recognizer\<close>

lemma google_iteration_fields:
  "segment_queue (GoogleSegmentWorker_iteration w W ob) = tl (segment_queue W)"
  by (auto simp: GoogleSegmentWorker_iteration_def put_message_def Let_def
      split: list.splits outcome.splits google_reply.splits)

lemma google_loop_consumes:
  "gw_running w \<Longrightarrow>
     segment_queue (GoogleSegmentWorker_loop w W obs) = drop (length obs) (segment_queue W)"
proof (induction obs arbitrary: W)
  case Nil
  then show ?case by simp
next
  case (Cons ob obs)
  then show ?case by (simp add: google_iteration_fields drop_Suc)
qed

text \<open>
  Claim C8. For a chunk taken from the spillover queue: a recognized text that is not
  blank gives exactly one final transcript event (between the two progress statuses); an
  \<^verbatim>\<open>UnknownValueError\<close> (no speech) gives no final event and no status of error colour; a
  \<^verbatim>\<open>RequestError\<close> gives the error status \<^verbatim>\<open>Network/ASR Error\<close>; in every case the
  chunk is consumed, the events are appended to the message queue, and a running worker
  goes on with the next chunk.
\<close>

theorem C8_fallback_outcomes:
  "(chunk_ready w W raw rest \<and> g_reply ob1 = Recognized text \<and> strip text \<noteq> [] \<longrightarrow>
      fallback_events w W ob1 =
        [Status ''Recognizing...'' CONFIG_ready, Transcription text (g_stamp ob1),
         Status ''Listening...'' CONFIG_listening]
      \<and> length (filter is_final (fallback_events w W ob1)) = 1)
   \<and> (chunk_ready w W raw rest \<and> g_reply ob2 = UnknownValueError \<longrightarrow>
      fallback_events w W ob2 =
        [Status ''Recognizing...'' CONFIG_ready, Status ''Listening...'' CONFIG_listening]
      \<and> filter is_final (fallback_events w W ob2) = []
      \<and> filter is_error_status (fallback_events w W ob2) = [])
   \<and> (chunk_ready w W raw rest \<and> g_reply ob3 = RequestError e \<longrightarrow>
      fallback_events w W ob3 =
        [Status ''Recognizing...'' CONFIG_ready, Status ''Network/ASR Error'' CONFIG_error,
         Status ''Listening...'' CONFIG_listening]
      \<and> filter is_error_status (fallback_events w W ob3) = [Status ''Network/ASR Error'' CONFIG_error])
   \<and> (chunk_ready w W raw rest \<longrightarrow>
      GoogleSegmentWorker_iteration w W ob =
        W\<lparr>segment_queue := rest, message_queue := message_queue W @ fallback_events w W ob\<rparr>)
   \<and> (gw_running w \<longrightarrow>
        GoogleSegmentWorker_loop w W (ob # obs)
          = GoogleSegmentWorker_loop w (GoogleSegmentWorker_iteration w W ob) obs
        \<and> segment_queue (GoogleSegmentWorker_loop w W (ob # obs))
          = drop (Suc (length obs)) (segment_queue W))"
proof -
  have colours: "CONFIG_ready \<noteq> CONFIG_error" "CONFIG_listening \<noteq> CONFIG_error"
    by (simp_all add: CONFIG_ready_def CONFIG_error_def CONFIG_listening_def)
  have a: "fallback_events w W ob1 =
           [Status ''Recognizing...'' CONFIG_ready, Transcription text (g_stamp ob1),
            Status ''Listening...'' CONFIG_listening]
         \<and> length (filter is_final (fallback_events w W ob1)) = 1"
    if "chunk_ready w W raw rest" "g_reply ob1 = Recognized text" "strip text \<noteq> []"
    using that
    by (simp add: chunk_ready_def fallback_events_def GoogleSegmentWorker_iteration_def put_message_def)
  have b: "fallback_events w W ob2 =
           [Status ''Recognizing...'' CONFIG_ready, Status ''Listening...'' CONFIG_listening]
         \<and> filter is_final (fallback_events w W ob2) = []
         \<and> filter is_error_status (fallback_events w W ob2) = []"
    if "chunk_ready w W raw rest" "g_reply ob2 = UnknownValueError"
    using that colours
    by (simp add: chunk_ready_def fallback_events_def GoogleSegmentWorker_iteration_def put_message_def)
  have c: "fallback_events w W ob3 =
           [Status ''Recognizing...'' CONFIG_ready, Status ''Network/ASR Error'' CONFIG_error,
            Status ''Listening...'' CONFIG_listening]
         \<and> filter is_error_status (fallback_events w W ob3) = [Status ''Network/ASR Error'' CONFIG_error]"
    if "chunk_ready w W raw rest" "g_reply ob3 = RequestError e"
    using that colours
    by (simp add: chunk_ready_def fallback_events_def GoogleSegmentWorker_iteration_def put_message_def)
  have d: "GoogleSegmentWorker_iteration w W ob =
           W\<lparr>segment_queue := rest, message_queue := message_queue W @ fallback_events w W ob\<rparr>"
    if "chunk_ready w W raw rest"
    using that
    by (cases "g_reply ob")
       (simp_all add: chunk_ready_def fallback_events_def GoogleSegmentWorker_iteration_def
          put_message_def Let_def)
  have e: "GoogleSegmentWorker_loop w W (ob # obs)
          = GoogleSegmentWorker_loop w (GoogleSegmentWorker_iteration w W ob) obs
        \<and> segment_queue (GoogleSegmentWorker_loop w W (ob # obs))
          = drop (Suc (length obs)) (segment_queue W)" if "gw_running w"
    using that google_loop_consumes [OF that, of W "ob # obs"] by simp
  from a b c d e show ?thesis by blast
qed

theorem C8_fallback_outcomes_witness:
  "chunk_ready app_google_worker fallback_world [1, 0] [[2, 0]]
   \<and> g_reply (google_says (Recognized ''hello'')) = Recognized ''hello'' \<and> strip ''hello'' \<noteq> []
   \<and> g_reply (google_says UnknownValueError) = UnknownValueError
   \<and> g_reply (google_says (RequestError ''timed out'')) = RequestError ''timed out''
   \<and> gw_running app_google_worker
   \<and> fallback_events app_google_worker fallback_world (google_says (Recognized ''hello'')) =
        [Status ''Recognizing...'' CONFIG_ready,
         Transcription ''hello'' (g_stamp (google_says (Recognized ''hello''))),
         Status ''Listening...'' CONFIG_listening]
   \<and> fallback_events app_google_worker fallback_world (google_says UnknownValueError) =
        [Status ''Recognizing...'' CONFIG_ready, Status ''Listening...'' CONFIG_listening]
   \<and> filter is_error_status
        (fallback_events app_google_worker fallback_world (google_says (RequestError ''timed out'')))
        = [Status ''Network/ASR Error'' CONFIG_error]
   \<and> segment_queue (GoogleSegmentWorker_loop app_google_worker fallback_world
        (google_says (RequestError ''timed out'') # [google_says (Recognized ''hello'')]))
        = drop (Suc (length [google_says (Recognized ''hello'')])) (segment_queue fallback_world)"
proof -
  have h1: "chunk_ready app_google_worker fallback_world [1, 0] [[2, 0]]"
    by (simp add: chunk_ready_def app_google_worker_def GoogleSegmentWorker_start_def
        GoogleSegmentWorker_init_def fallback_world_def new_AudioData_def CONFIG_sample_rate_def)
  have h2: "g_reply (google_says (Recognized ''hello'')) = Recognized ''hello'' \<and> strip ''hello'' \<noteq> []"
    by (simp add: google_says_def strip_hello)
  have h3: "g_reply (google_says UnknownValueError) = UnknownValueError"
    by (simp add: google_says_def)
  have h4: "g_reply (google_says (RequestError ''timed out'')) = RequestError ''timed out''"
    by (simp add: google_says_def)
  have h5: "gw_running app_google_worker"
    by (simp add: app_google_worker_def GoogleSegmentWorker_start_def GoogleSegmentWorker_init_def)
  show ?thesis
    using C8_fallback_outcomes [of app_google_worker fallback_world "[1, 0]" "[[2, 0]]"
        "google_says (Recognized ''hello'')" "''hello''" "google_says UnknownValueError"
        "google_says (RequestError ''timed out'')" "''timed out''"
        "google_says (RequestError ''timed out'')" "[google_says (Recognized ''hello'')]"]
      h1 h2 h3 h4 h5
    by blast
qed

subsection \<open>The asset provisioner\<close>

text \<open>
  What the copy loop and a whole download do to the file system: only the temporary path
  changes until the final rename, and the network log grows by the one request.
\<close>

lemma read_chunks_effect:
  "map_of (p_fs st) tmp = Some (File old) \<Longrightarrow>
   read_chunks tmp dest tot cs n st = (err, n', st') \<Longrightarrow>
     (err = None) = stream_ok cs
     \<and> n' = n + length (payload cs)
     \<and> map_of (p_fs st') tmp = Some (File (old @ payload cs))
     \<and> (\<forall>q. q \<noteq> tmp \<longrightarrow> map_of (p_fs st') q = map_of (p_fs st) q)
     \<and> p_net st' = p_net st
     \<and> (\<exists>H. p_hist st' = p_hist st @ H
            \<and> (\<forall>fs\<in>set H. \<forall>q. q \<noteq> tmp \<longrightarrow> map_of fs q = map_of (p_fs st) q))"
proof (induction cs arbitrary: n st old)
  case Nil
  then show ?case by auto
next
  case (Cons c cs)
  show ?case
  proof (cases c)
    case (ReadError e)
    with Cons.prems show ?thesis by auto
  next
    case (Data chunk)
    show ?thesis
    proof (cases "chunk = []")
      case True
      with Data Cons.prems show ?thesis by auto
    next
      case False
      let ?fs1 = "file_append (p_fs st) tmp chunk"
      let ?st2 = "status_cb (set_fs st ?fs1)
                     (percent_of (n + length chunk) tot, n + length chunk, tot,
                      ''Downloading '' @ basename dest)"
      have fs1: "map_of ?fs1 = (map_of (p_fs st))(tmp \<mapsto> File (old @ chunk))"
        using Cons.prems(1) by (simp add: file_append_def AList.update_conv')
      have st2: "p_fs ?st2 = ?fs1" "p_hist ?st2 = p_hist st @ [?fs1]" "p_net ?st2 = p_net st"
        by (simp_all add: status_cb_def set_fs_def)
      have run: "read_chunks tmp dest tot cs (n + length chunk) ?st2 = (err, n', st')"
        using Cons.prems(2) Data False by (simp add: Let_def)
      have pre: "map_of (p_fs ?st2) tmp = Some (File (old @ chunk))"
        using fs1 st2(1) by simp
      from Cons.IH [OF pre run] obtain H where
        ih: "(err = None) = stream_ok cs" "n' = n + length chunk + length (payload cs)"
            "map_of (p_fs st') tmp = Some (File ((old @ chunk) @ payload cs))"
            "\<forall>q. q \<noteq> tmp \<longrightarrow> map_of (p_fs st') q = map_of (p_fs ?st2) q"
            "p_net st' = p_net ?st2"
            "p_hist st' = p_hist ?st2 @ H"
            "\<forall>fs\<in>set H. \<forall>q. q \<noteq> tmp \<longrightarrow> map_of fs q = map_of (p_fs ?st2) q"
        by blast
      have other: "q \<noteq> tmp \<Longrightarrow> map_of (p_fs ?st2) q = map_of (p_fs st) q" for q
        using fs1 st2(1) by simp
      have hist: "p_hist st' = p_hist st @ (?fs1 # H)"
        using ih(6) st2(2) by simp
      have histok: "\<forall>fs\<in>set (?fs1 # H). \<forall>q. q \<noteq> tmp \<longrightarrow> map_of fs q = map_of (p_fs st) q"
        using ih(7) other fs1 by auto
      show ?thesis
        using ih(1-5) other hist histok Data False st2(3) by (auto simp del: set_simps)
    qed
  qed
qed

lemma read_chunks_net:
  "read_chunks tmp d tot cs n s = (e, n', s') \<Longrightarrow> p_net s' = p_net s"
  by (induction tmp d tot cs n s rule: read_chunks.induct)
     (auto simp: Let_def status_cb_def set_fs_def split: if_splits)

lemma download_net: "p_net (snd (download_with_progress env url dest st)) = p_net st @ [url]"
  by (auto simp: download_with_progress_def download_error_def status_cb_def set_fs_def Let_def
      split: outcome.splits prod.splits option.splits dest!: read_chunks_net)

lemma download_outcome:
  assumes r: "download_with_progress env url dest st = (ok, st')"
  shows "(\<not> ok \<longrightarrow>
            (\<forall>q. q \<noteq> dest @ ''.part'' \<longrightarrow> map_of (p_fs st') q = map_of (p_fs st) q)
            \<and> (\<exists>H. p_hist st' = p_hist st @ H
                 \<and> (\<forall>fs\<in>set H. \<forall>q. q \<noteq> dest @ ''.part'' \<longrightarrow> map_of fs q = map_of (p_fs st) q)))
       \<and> (ok \<longrightarrow>
            (\<exists>resp. fetch env url = Returns resp \<and> stream_ok (body resp)
                \<and> map_of (p_fs st') dest = Some (File (payload (body resp))))
            \<and> map_of (p_fs st') (dest @ ''.part'') = None
            \<and> (\<forall>q. q \<noteq> dest @ ''.part'' \<and> q \<noteq> dest \<longrightarrow> map_of (p_fs st') q = map_of (p_fs st) q)
            \<and> (\<exists>H. p_hist st' = p_hist st @ H @ [p_fs st']
                 \<and> (\<forall>fs\<in>set H. \<forall>q. q \<noteq> dest @ ''.part'' \<longrightarrow> map_of fs q = map_of (p_fs st) q)))"
proof (cases "fetch env url")
  case (Raises e)
  with r show ?thesis
    by (auto simp: download_with_progress_def download_error_def status_cb_def)
next
  case (Returns resp)
  let ?tmp = "dest @ ''.part''"
  let ?st0 = "st\<lparr>p_net := p_net st @ [url]\<rparr>"
  show ?thesis
  proof (cases "open_wb (p_fs st) ?tmp")
    case (Raises e)
    with r Returns show ?thesis
      by (auto simp: download_with_progress_def download_error_def status_cb_def)
  next
    case op: (Returns fs1)
    then have fs1: "map_of fs1 = (map_of (p_fs st))(?tmp \<mapsto> File [])"
      by (auto simp: open_wb_def AList.update_conv' split: if_splits)
    let ?st1 = "set_fs ?st0 fs1"
    obtain err n st2 where rc:
      "read_chunks ?tmp dest (parse_total (content_length resp)) (body resp) 0 ?st1 = (err, n, st2)"
      by (metis prod_cases3)
    have pre: "map_of (p_fs ?st1) ?tmp = Some (File [])"
      using fs1 by (simp add: set_fs_def)
    from read_chunks_effect [OF pre rc] obtain H where
      eff: "(err = None) = stream_ok (body resp)"
           "map_of (p_fs st2) ?tmp = Some (File (payload (body resp)))"
           "\<forall>q. q \<noteq> ?tmp \<longrightarrow> map_of (p_fs st2) q = map_of (p_fs ?st1) q"
           "p_hist st2 = p_hist ?st1 @ H"
           "\<forall>fs\<in>set H. \<forall>q. q \<noteq> ?tmp \<longrightarrow> map_of fs q = map_of (p_fs ?st1) q"
      by auto
    have st1: "p_fs ?st1 = fs1" "p_hist ?st1 = p_hist st @ [fs1]"
      by (simp_all add: set_fs_def)
    have same2: "q \<noteq> ?tmp \<Longrightarrow> map_of (p_fs st2) q = map_of (p_fs st) q" for q
      using eff(3) st1(1) fs1 by simp
    have hist2: "p_hist st2 = p_hist st @ (fs1 # H)"
      using eff(4) st1(2) by simp
    have hist2ok: "\<forall>fs\<in>set (fs1 # H). \<forall>q. q \<noteq> ?tmp \<longrightarrow> map_of fs q = map_of (p_fs st) q"
      using eff(5) st1(1) fs1 by auto
    show ?thesis
    proof (cases err)
      case (Some e)
      then have "ok = False" "st' = status_cb st2 (None, 0, Some 0, ''Download error: '' @ e)"
        using r Returns op rc
        by (auto simp: download_with_progress_def download_error_def Let_def)
      then show ?thesis using same2 hist2 hist2ok by (auto simp: status_cb_def simp del: set_simps)
    next
      case None
      then have ok_stream: "stream_ok (body resp)" using eff(1) by simp
      show ?thesis
      proof (cases "os_replace (p_fs st2) ?tmp dest")
        case (Raises e)
        then have "ok = False" "st' = status_cb st2 (None, 0, Some 0, ''Download error: '' @ e)"
          using r Returns op rc None
          by (auto simp: download_with_progress_def download_error_def Let_def)
        then show ?thesis using same2 hist2 hist2ok by (auto simp: status_cb_def simp del: set_simps)
      next
        case rp: (Returns fs3)
        then have fs3: "map_of fs3 = ((map_of (p_fs st2))(?tmp := None))(dest \<mapsto> File (payload (body resp)))"
          using eff(2)
          by (auto simp: os_replace_def AList.update_conv' AList.delete_conv' split: if_splits)
        have res: "ok = True" "p_fs st' = fs3" "p_hist st' = p_hist st2 @ [fs3]"
          using r Returns op rc None rp
          by (auto simp: download_with_progress_def Let_def status_cb_def set_fs_def)
        have ne: "dest \<noteq> ?tmp" by simp
        have a: "map_of (p_fs st') dest = Some (File (payload (body resp)))"
          using res(2) fs3 by simp
        have b: "map_of (p_fs st') ?tmp = None"
          using res(2) fs3 ne by (simp del: ne)
        have c: "\<forall>q. q \<noteq> ?tmp \<and> q \<noteq> dest \<longrightarrow> map_of (p_fs st') q = map_of (p_fs st) q"
          using res(2) fs3 same2 by simp
        have d: "p_hist st' = p_hist st @ (fs1 # H) @ [p_fs st']"
          using res(2,3) hist2 by simp
        show ?thesis
          using res(1) Returns ok_stream a b c d hist2ok by blast
      qed
    qed
  qed
qed

lemma new_states_append: "p_hist st' = p_hist st @ H \<Longrightarrow> new_states st st' = H"
  by (simp add: new_states_def)

lemma app_zip_path_eq: "app_zip_path = ''models/vosk-model-small-en-us-0.15.zip''"
  by code_simp

lemma flaky_first_fails:
  "download_with_progress flaky_env (CANDIDATE_URLS ! 0) app_zip_path models_only =
     (False,
      \<lparr> p_fs = [(''models'', Dir), (''models/vosk-model-small-en-us-0.15.zip.part'', File [1, 2, 3])],
        p_hist = [[(''models'', Dir), (''models/vosk-model-small-en-us-0.15.zip.part'', File [])],
                  [(''models'', Dir), (''models/vosk-model-small-en-us-0.15.zip.part'', File [1, 2, 3])]],
        p_net = [CANDIDATE_URLS ! 0],
        p_calls = [(Some 50, 3, Some 6, ''Downloading vosk-model-small-en-us-0.15.zip''),
                   (None, 0, Some 0, ''Download error: connection reset'')] \<rparr>)"
  by code_simp

lemma flaky_third_succeeds:
  "download_with_progress flaky_env (CANDIDATE_URLS ! 2) app_zip_path models_only =
     (True,
      \<lparr> p_fs = [(''models'', Dir), (''models/vosk-model-small-en-us-0.15.zip'', File [80, 75, 5, 6])],
        p_hist = [[(''models'', Dir), (''models/vosk-model-small-en-us-0.15.zip.part'', File [])],
                  [(''models'', Dir), (''models/vosk-model-small-en-us-0.15.zip.part'', File [80, 75])],
                  [(''models'', Dir), (''models/vosk-model-small-en-us-0.15.zip.part'', File [80, 75, 5, 6])],
                  [(''models'', Dir), (''models/vosk-model-small-en-us-0.15.zip'', File [80, 75, 5, 6])]],
        p_net = [CANDIDATE_URLS ! 2],
        p_calls = [(Some 50, 2, Some 4, ''Downloading vosk-model-small-en-us-0.15.zip''),
                   (Some 100, 4, Some 4, ''Downloading vosk-model-small-en-us-0.15.zip''),
                   (Some 100, 4, Some 4, ''Download complete'')] \<rparr>)"
  by code_simp

text \<open>
  Claim C5. During a download every file system state before the last differs from the
  initial one at the temporary path \<open>dest @ ".part"\<close> only, so the final path holds
  what it held before (nothing, if it did not exist); a download that fails never touches
  the final path; a download that succeeds ends with one rename, after the whole stream
  has been read, which puts exactly the bytes of the stream at the final path and removes
  the temporary file.
\<close>

theorem C5_final_path_untouched_until_rename:
  "(\<not> fst (download_with_progress env url1 dest st) \<longrightarrow>
      (\<forall>fs\<in>set (new_states st (snd (download_with_progress env url1 dest st))).
          map_of fs dest = map_of (p_fs st) dest)
      \<and> map_of (p_fs (snd (download_with_progress env url1 dest st))) dest = map_of (p_fs st) dest)
   \<and> (fst (download_with_progress env url2 dest st) \<longrightarrow>
      new_states st (snd (download_with_progress env url2 dest st)) \<noteq> []
      \<and> (\<forall>fs\<in>set (butlast (new_states st (snd (download_with_progress env url2 dest st)))).
            \<forall>q. q \<noteq> dest @ ''.part'' \<longrightarrow> map_of fs q = map_of (p_fs st) q)
      \<and> (\<forall>fs\<in>set (butlast (new_states st (snd (download_with_progress env url2 dest st)))).
            map_of fs dest = map_of (p_fs st) dest)
      \<and> last (new_states st (snd (download_with_progress env url2 dest st)))
           = p_fs (snd (download_with_progress env url2 dest st))
      \<and> (\<exists>resp. fetch env url2 = Returns resp \<and> stream_ok (body resp)
            \<and> map_of (p_fs (snd (download_with_progress env url2 dest st))) dest
                 = Some (File (payload (body resp))))
      \<and> map_of (p_fs (snd (download_with_progress env url2 dest st))) (dest @ ''.part'') = None)"
proof -
  have ne: "dest \<noteq> dest @ ''.part''" by simp
  have a: "(\<forall>fs\<in>set (new_states st (snd (download_with_progress env url1 dest st))).
          map_of fs dest = map_of (p_fs st) dest)
      \<and> map_of (p_fs (snd (download_with_progress env url1 dest st))) dest = map_of (p_fs st) dest"
    if bad: "\<not> fst (download_with_progress env url1 dest st)"
  proof -
    obtain ok st' where r: "download_with_progress env url1 dest st = (ok, st')" by force
    with bad have nok: "\<not> ok" by simp
    note X = conjunct1 [OF download_outcome [OF r], THEN mp, OF nok]
    have h1: "\<forall>q. q \<noteq> dest @ ''.part'' \<longrightarrow> map_of (p_fs st') q = map_of (p_fs st) q"
      by (rule X [THEN conjunct1])
    from X [THEN conjunct2] obtain H where
      h2: "p_hist st' = p_hist st @ H" and
      h3: "\<forall>fs\<in>set H. \<forall>q. q \<noteq> dest @ ''.part'' \<longrightarrow> map_of fs q = map_of (p_fs st) q"
      by (elim exE conjE)
    have ns: "new_states st st' = H" by (rule new_states_append [OF h2])
    have c1: "\<forall>fs\<in>set (new_states st st'). map_of fs dest = map_of (p_fs st) dest"
      unfolding ns using h3 ne by blast
    have c2: "map_of (p_fs st') dest = map_of (p_fs st) dest"
      using h1 ne by blast
    show ?thesis unfolding r snd_conv using c1 c2 by (rule conjI)
  qed
  have b: "new_states st (snd (download_with_progress env url2 dest st)) \<noteq> []
      \<and> (\<forall>fs\<in>set (butlast (new_states st (snd (download_with_progress env url2 dest st)))).
            \<forall>q. q \<noteq> dest @ ''.part'' \<longrightarrow> map_of fs q = map_of (p_fs st) q)
      \<and> (\<forall>fs\<in>set (butlast (new_states st (snd (download_with_progress env url2 dest st)))).
            map_of fs dest = map_of (p_fs st) dest)
      \<and> last (new_states st (snd (download_with_progress env url2 dest st)))
           = p_fs (snd (download_with_progress env url2 dest st))
      \<and> (\<exists>resp. fetch env url2 = Returns resp \<and> stream_ok (body resp)
            \<and> map_of (p_fs (snd (download_with_progress env url2 dest st))) dest
                 = Some (File (payload (body resp))))
      \<and> map_of (p_fs (snd (download_with_progress env url2 dest st))) (dest @ ''.part'') = None"
    if good: "fst (download_with_progress env url2 dest st)"
  proof -
    obtain ok st' where r: "download_with_progress env url2 dest st = (ok, st')" by force
    with good have ok: ok by simp
    note X = conjunct2 [OF download_outcome [OF r], THEN mp, OF ok]
    have h1: "\<exists>resp. fetch env url2 = Returns resp \<and> stream_ok (body resp)
                \<and> map_of (p_fs st') dest = Some (File (payload (body resp)))"
      by (rule X [THEN conjunct1])
    have h2: "map_of (p_fs st') (dest @ ''.part'') = None"
      by (rule X [THEN conjunct2, THEN conjunct1])
    from X [THEN conjunct2, THEN conjunct2, THEN conjunct2] obtain H where
      h3: "p_hist st' = p_hist st @ H @ [p_fs st']" and
      h4: "\<forall>fs\<in>set H. \<forall>q. q \<noteq> dest @ ''.part'' \<longrightarrow> map_of fs q = map_of (p_fs st) q"
      by (elim exE conjE)
    have ns: "new_states st st' = H @ [p_fs st']"
      by (rule new_states_append [OF h3])
    have c1: "new_states st st' \<noteq> []" unfolding ns by simp
    have bl: "butlast (new_states st st') = H" unfolding ns by simp
    have c2: "\<forall>fs\<in>set (butlast (new_states st st')).
            \<forall>q. q \<noteq> dest @ ''.part'' \<longrightarrow> map_of fs q = map_of (p_fs st) q"
      unfolding bl by (rule h4)
    have c3: "\<forall>fs\<in>set (butlast (new_states st st')). map_of fs dest = map_of (p_fs st) dest"
      unfolding bl using h4 ne by blast
    have c4: "last (new_states st st') = p_fs st'" unfolding ns by simp
    show ?thesis unfolding r snd_conv using c1 c2 c3 c4 h1 h2 by (intro conjI)
  qed
  show ?thesis by (rule conjI; rule impI; erule a b)
qed

theorem C5_final_path_untouched_until_rename_witness:
  "\<not> fst (download_with_progress flaky_env (CANDIDATE_URLS ! 0) app_zip_path models_only)
   \<and> fst (download_with_progress flaky_env (CANDIDATE_URLS ! 2) app_zip_path models_only)
   \<and> map_of (p_fs (snd (download_with_progress flaky_env (CANDIDATE_URLS ! 0) app_zip_path models_only)))
        app_zip_path = map_of (p_fs models_only) app_zip_path
   \<and> new_states models_only
        (snd (download_with_progress flaky_env (CANDIDATE_URLS ! 2) app_zip_path models_only)) \<noteq> []
   \<and> last (new_states models_only
        (snd (download_with_progress flaky_env (CANDIDATE_URLS ! 2) app_zip_path models_only)))
        = p_fs (snd (download_with_progress flaky_env (CANDIDATE_URLS ! 2) app_zip_path models_only))
   \<and> map_of (p_fs (snd (download_with_progress flaky_env (CANDIDATE_URLS ! 2) app_zip_path models_only)))
        (app_zip_path @ ''.part'') = None"
proof -
  have h1: "\<not> fst (download_with_progress flaky_env (CANDIDATE_URLS ! 0) app_zip_path models_only)"
    by (simp add: flaky_first_fails)
  have h2: "fst (download_with_progress flaky_env (CANDIDATE_URLS ! 2) app_zip_path models_only)"
    by (simp add: flaky_third_succeeds)
  show ?thesis
    using C5_final_path_untouched_until_rename [of flaky_env "CANDIDATE_URLS ! 0" app_zip_path
        models_only "CANDIDATE_URLS ! 2"] h1 h2
    by blast
qed

lemma url_loop_skips_failed:
  "fst (failed_attempts env zip_path us st) \<Longrightarrow>
     url_loop env target_dir zip_path (us @ rest) st
       = url_loop env target_dir zip_path rest (snd (failed_attempts env zip_path us st))"
proof (induction us arbitrary: st)
  case Nil
  then show ?case by simp
next
  case (Cons u us)
  obtain ok st2 where d: "download_with_progress env u zip_path
      (status_cb st (None, 0, Some 0, ''Trying: '' @ u)) = (ok, st2)" by force
  from Cons.prems d have nok: "\<not> ok" and rest: "fst (failed_attempts env zip_path us st2)"
    by (auto split: if_splits)
  show ?case using d nok Cons.IH [OF rest] by simp
qed

lemma broken_stream_keeps_part:
  assumes f: "fetch env url = Returns resp"
    and op: "open_wb (p_fs st) (dest @ ''.part'') = Returns fs1"
    and bad: "\<not> stream_ok (body resp)"
  shows "\<not> fst (download_with_progress env url dest st)
     \<and> map_of (p_fs (snd (download_with_progress env url dest st))) (dest @ ''.part'')
          = Some (File (payload (body resp)))"
proof -
  let ?tmp = "dest @ ''.part''"
  let ?st1 = "set_fs (st\<lparr>p_net := p_net st @ [url]\<rparr>) fs1"
  have fs1: "map_of fs1 ?tmp = Some (File [])"
    using op by (auto simp: open_wb_def AList.update_conv' split: if_splits)
  obtain err n st2 where rc:
    "read_chunks ?tmp dest (parse_total (content_length resp)) (body resp) 0 ?st1 = (err, n, st2)"
    by (metis prod_cases3)
  have pre: "map_of (p_fs ?st1) ?tmp = Some (File [])"
    using fs1 by (simp add: set_fs_def)
  note eff = read_chunks_effect [OF pre rc]
  have e1: "(err = None) = stream_ok (body resp)" by (rule eff [THEN conjunct1])
  have e3: "map_of (p_fs st2) ?tmp = Some (File ([] @ payload (body resp)))"
    by (rule eff [THEN conjunct2, THEN conjunct2, THEN conjunct1])
  from e1 bad obtain e where err: "err = Some e" by auto
  have res: "download_with_progress env url dest st
      = (False, status_cb st2 (None, 0, Some 0, ''Download error: '' @ e))"
    using f op rc err by (simp add: download_with_progress_def download_error_def Let_def)
  show ?thesis unfolding res using e3 by (simp add: status_cb_def)
qed

lemma flaky_run:
  "fst (auto_download_model flaky_env CONFIG_model_target_dir CANDIDATE_URLS (fresh [])) = Returns True
   \<and> p_fs (snd (auto_download_model flaky_env CONFIG_model_target_dir CANDIDATE_URLS (fresh [])))
       = [(''models'', Dir), (''models/vosk-model-small-en-us-0.15'', Dir),
          (''models/vosk-model-small-en-us-0.15/README'', File [7])]
   \<and> p_net (snd (auto_download_model flaky_env CONFIG_model_target_dir CANDIDATE_URLS (fresh [])))
       = CANDIDATE_URLS"
  by code_simp

text \<open>
  Claim C4, as stated, on the code: a download that fails in the middle of the stream
  does not discard its temporary file. With two mirrors, the first failing after three
  bytes and the second refusing the request, \<^verbatim>\<open>auto_download_model\<close> returns false and
  the \<^verbatim>\<open>.part\<close> file is still on disk with the three bytes.
\<close>

theorem C4_counterexample:
  "auto_download_model flaky_env CONFIG_model_target_dir (take 2 CANDIDATE_URLS) (fresh [])
     = (Returns False,
        \<lparr> p_fs = [(''models'', Dir), (''models/vosk-model-small-en-us-0.15.zip.part'', File [1, 2, 3])],
          p_hist = [[(''models'', Dir)],
                    [(''models'', Dir), (''models/vosk-model-small-en-us-0.15.zip.part'', File [])],
                    [(''models'', Dir), (''models/vosk-model-small-en-us-0.15.zip.part'', File [1, 2, 3])]],
          p_net = take 2 CANDIDATE_URLS,
          p_calls = [trying (CANDIDATE_URLS ! 0),
                     (Some 50, 3, Some 6, ''Downloading vosk-model-small-en-us-0.15.zip''),
                     (None, 0, Some 0, ''Download error: connection reset''),
                     trying (CANDIDATE_URLS ! 1),
                     (None, 0, Some 0, ''Download error: HTTP Error 404''),
                     (None, 0, Some 0, ''All downloads failed'')] \<rparr>)
   \<and> map_of (p_fs (snd (download_with_progress flaky_env (CANDIDATE_URLS ! 0) app_zip_path models_only)))
        (app_zip_path @ ''.part'') = Some (File [1, 2, 3])"
  by code_simp

text \<open>
  Claim C4, amended. A failed download makes the loop go on with the next URL; no
  statement deletes the temporary file, which keeps the bytes received before the failure
  (the next attempt truncates it when it opens it). When the mirrors of a list \<open>us\<close> all
  fail and the download from the next mirror \<open>u\<close> succeeds, the archive path holds exactly
  the bytes of \<open>u\<close>'s stream, no \<^verbatim>\<open>.part\<close> file is left, and the loop continues with
  the extraction of that archive.
\<close>

theorem C4_failed_mirror_is_skipped:
  "(\<not> fst (download_with_progress env url zip_path (status_cb st (trying url))) \<longrightarrow>
      url_loop env target_dir zip_path (url # urls) st
        = url_loop env target_dir zip_path urls
            (snd (download_with_progress env url zip_path (status_cb st (trying url)))))
   \<and> (fetch env url = Returns resp \<and> open_wb (p_fs st) (zip_path @ ''.part'') = Returns fs1
        \<and> \<not> stream_ok (body resp) \<longrightarrow>
      \<not> fst (download_with_progress env url zip_path (status_cb st (trying url)))
      \<and> map_of (p_fs (snd (download_with_progress env url zip_path (status_cb st (trying url)))))
           (zip_path @ ''.part'') = Some (File (payload (body resp))))
   \<and> (fst (failed_attempts env zip_path us st) \<longrightarrow>
      url_loop env target_dir zip_path (us @ rest) st
        = url_loop env target_dir zip_path rest (snd (failed_attempts env zip_path us st)))
   \<and> (fst (failed_attempts env zip_path us st)
        \<and> fst (download_with_progress env u zip_path
                 (status_cb (snd (failed_attempts env zip_path us st)) (trying u))) \<longrightarrow>
      (\<exists>r. fetch env u = Returns r \<and> stream_ok (body r)
          \<and> map_of (p_fs (snd (download_with_progress env u zip_path
                 (status_cb (snd (failed_attempts env zip_path us st)) (trying u))))) zip_path
               = Some (File (payload (body r))))
      \<and> map_of (p_fs (snd (download_with_progress env u zip_path
                 (status_cb (snd (failed_attempts env zip_path us st)) (trying u)))))
           (zip_path @ ''.part'') = None
      \<and> url_loop env target_dir zip_path (us @ u # rest) st
           = (case install_download env target_dir zip_path
                     (snd (download_with_progress env u zip_path
                        (status_cb (snd (failed_attempts env zip_path us st)) (trying u)))) of
                (done, st4) \<Rightarrow>
                  if done then (True, st4) else url_loop env target_dir zip_path rest st4))"
proof -
  have a: "url_loop env target_dir zip_path (url # urls) st
        = url_loop env target_dir zip_path urls
            (snd (download_with_progress env url zip_path (status_cb st (trying url))))"
    if h: "\<not> fst (download_with_progress env url zip_path (status_cb st (trying url)))"
  proof -
    obtain ok st2 where r: "download_with_progress env url zip_path
        (status_cb st (None, 0, Some 0, ''Trying: '' @ url)) = (ok, st2)" by force
    with h have "\<not> ok" by (simp add: trying_def)
    with r show ?thesis by (simp add: trying_def)
  qed
  have b: "\<not> fst (download_with_progress env url zip_path (status_cb st (trying url)))
      \<and> map_of (p_fs (snd (download_with_progress env url zip_path (status_cb st (trying url)))))
           (zip_path @ ''.part'') = Some (File (payload (body resp)))"
    if "fetch env url = Returns resp \<and> open_wb (p_fs st) (zip_path @ ''.part'') = Returns fs1
        \<and> \<not> stream_ok (body resp)"
  proof -
    have op: "open_wb (p_fs (status_cb st (trying url))) (zip_path @ ''.part'') = Returns fs1"
      using that by (simp add: status_cb_def)
    show ?thesis
      using broken_stream_keeps_part [OF _ op, of env url resp] that by blast
  qed
  have c: "url_loop env target_dir zip_path (us @ rest) st
        = url_loop env target_dir zip_path rest (snd (failed_attempts env zip_path us st))"
    if "fst (failed_attempts env zip_path us st)" for rest
    using that by (rule url_loop_skips_failed)
  have d: "(\<exists>r. fetch env u = Returns r \<and> stream_ok (body r)
          \<and> map_of (p_fs (snd (download_with_progress env u zip_path
                 (status_cb (snd (failed_attempts env zip_path us st)) (trying u))))) zip_path
               = Some (File (payload (body r))))
      \<and> map_of (p_fs (snd (download_with_progress env u zip_path
                 (status_cb (snd (failed_attempts env zip_path us st)) (trying u)))))
           (zip_path @ ''.part'') = None
      \<and> url_loop env target_dir zip_path (us @ u # rest) st
           = (case install_download env target_dir zip_path
                     (snd (download_with_progress env u zip_path
                        (status_cb (snd (failed_attempts env zip_path us st)) (trying u)))) of
                (done, st4) \<Rightarrow>
                  if done then (True, st4) else url_loop env target_dir zip_path rest st4)"
    if h: "fst (failed_attempts env zip_path us st)
        \<and> fst (download_with_progress env u zip_path
                 (status_cb (snd (failed_attempts env zip_path us st)) (trying u)))"
  proof -
    let ?st1 = "snd (failed_attempts env zip_path us st)"
    obtain ok st2 where r: "download_with_progress env u zip_path (status_cb ?st1 (trying u)) = (ok, st2)"
      by force
    with h have ok: ok by simp
    note X = conjunct2 [OF download_outcome [OF r], THEN mp, OF ok]
    have d1: "\<exists>r. fetch env u = Returns r \<and> stream_ok (body r)
          \<and> map_of (p_fs st2) zip_path = Some (File (payload (body r)))"
      by (rule X [THEN conjunct1])
    have d2: "map_of (p_fs st2) (zip_path @ ''.part'') = None"
      by (rule X [THEN conjunct2, THEN conjunct1])
    have d3: "url_loop env target_dir zip_path (us @ u # rest) st
           = (case install_download env target_dir zip_path st2 of
                (done, st4) \<Rightarrow>
                  if done then (True, st4) else url_loop env target_dir zip_path rest st4)"
      using c [of "u # rest"] h r ok by (simp add: trying_def)
    show ?thesis unfolding r snd_conv using d1 d2 d3 by (intro conjI)
  qed
  show ?thesis
    apply (intro conjI impI)
    subgoal by (erule a)
    subgoal using b by blast
    subgoal using b by blast
    subgoal by (erule c)
    subgoal using d by blast
    subgoal using d by blast
    subgoal using d by blast
    done
qed

theorem C4_failed_mirror_is_skipped_witness:
  "\<not> fst (download_with_progress flaky_env (CANDIDATE_URLS ! 0) app_zip_path
         (status_cb models_only (trying (CANDIDATE_URLS ! 0))))
   \<and> fetch flaky_env (CANDIDATE_URLS ! 0) = Returns first_response
   \<and> open_wb (p_fs models_only) (app_zip_path @ ''.part'')
        = Returns [(''models'', Dir), (''models/vosk-model-small-en-us-0.15.zip.part'', File [])]
   \<and> \<not> stream_ok (body first_response)
   \<and> fst (failed_attempts flaky_env app_zip_path (take 2 CANDIDATE_URLS) models_only)
   \<and> fst (download_with_progress flaky_env (CANDIDATE_URLS ! 2) app_zip_path
         (status_cb (snd (failed_attempts flaky_env app_zip_path (take 2 CANDIDATE_URLS) models_only))
            (trying (CANDIDATE_URLS ! 2))))
   \<and> url_loop flaky_env CONFIG_model_target_dir app_zip_path
        (CANDIDATE_URLS ! 0 # drop 1 CANDIDATE_URLS) models_only
       = url_loop flaky_env CONFIG_model_target_dir app_zip_path (drop 1 CANDIDATE_URLS)
           (snd (download_with_progress flaky_env (CANDIDATE_URLS ! 0) app_zip_path
              (status_cb models_only (trying (CANDIDATE_URLS ! 0)))))
   \<and> map_of (p_fs (snd (download_with_progress flaky_env (CANDIDATE_URLS ! 0) app_zip_path
         (status_cb models_only (trying (CANDIDATE_URLS ! 0))))))
        (app_zip_path @ ''.part'') = Some (File (payload (body first_response)))
   \<and> map_of (p_fs (snd (download_with_progress flaky_env (CANDIDATE_URLS ! 2) app_zip_path
         (status_cb (snd (failed_attempts flaky_env app_zip_path (take 2 CANDIDATE_URLS) models_only))
            (trying (CANDIDATE_URLS ! 2))))))
        (app_zip_path @ ''.part'') = None
   \<and> map_of (p_fs (snd (download_with_progress flaky_env (CANDIDATE_URLS ! 2) app_zip_path
         (status_cb (snd (failed_attempts flaky_env app_zip_path (take 2 CANDIDATE_URLS) models_only))
            (trying (CANDIDATE_URLS ! 2))))))
        app_zip_path = Some (File [80, 75, 5, 6])
   \<and> fst (auto_download_model flaky_env CONFIG_model_target_dir CANDIDATE_URLS (fresh [])) = Returns True
   \<and> p_fs (snd (auto_download_model flaky_env CONFIG_model_target_dir CANDIDATE_URLS (fresh [])))
       = [(''models'', Dir), (''models/vosk-model-small-en-us-0.15'', Dir),
          (''models/vosk-model-small-en-us-0.15/README'', File [7])]"
proof -
  have h1: "\<not> fst (download_with_progress flaky_env (CANDIDATE_URLS ! 0) app_zip_path
         (status_cb models_only (trying (CANDIDATE_URLS ! 0))))"
    by code_simp
  have h2: "fetch flaky_env (CANDIDATE_URLS ! 0) = Returns first_response
     \<and> open_wb (p_fs models_only) (app_zip_path @ ''.part'')
          = Returns [(''models'', Dir), (''models/vosk-model-small-en-us-0.15.zip.part'', File [])]
     \<and> \<not> stream_ok (body first_response)"
    by code_simp
  have h3: "fst (failed_attempts flaky_env app_zip_path (take 2 CANDIDATE_URLS) models_only)"
    by code_simp
  have h4: "fst (download_with_progress flaky_env (CANDIDATE_URLS ! 2) app_zip_path
         (status_cb (snd (failed_attempts flaky_env app_zip_path (take 2 CANDIDATE_URLS) models_only))
            (trying (CANDIDATE_URLS ! 2))))"
    by code_simp
  have zip: "map_of (p_fs (snd (download_with_progress flaky_env (CANDIDATE_URLS ! 2) app_zip_path
         (status_cb (snd (failed_attempts flaky_env app_zip_path (take 2 CANDIDATE_URLS) models_only))
            (trying (CANDIDATE_URLS ! 2))))))
        app_zip_path = Some (File [80, 75, 5, 6])"
    by code_simp
  note T = C4_failed_mirror_is_skipped [of flaky_env "CANDIDATE_URLS ! 0" app_zip_path models_only
        CONFIG_model_target_dir "drop 1 CANDIDATE_URLS" first_response
        "[(''models'', Dir), (''models/vosk-model-small-en-us-0.15.zip.part'', File [])]"
        "take 2 CANDIDATE_URLS" "[]" "CANDIDATE_URLS ! 2"]
  show ?thesis
    using T h1 h2 h3 h4 zip flaky_run by blast
qed

text \<open>
  The network log through the steps of the loop: only a download adds to it, and a loop
  over a non-empty list of URLs sends at least one request.
\<close>

lemma extract_members_net:
  "p_net (snd (extract_members extract_to tot i members st)) = p_net st"
  by (induction extract_to tot i members st rule: extract_members.induct)
     (simp_all add: status_cb_def set_fs_def split: outcome.splits)

lemma extract_zip_net: "p_net (snd (extract_zip env zip_path extract_to st)) = p_net st"
proof -
  have m: "extract_members extract_to tot i members st = (e, st1) \<Longrightarrow> p_net st1 = p_net st"
    for tot i members e st1
    using extract_members_net [of extract_to tot i members st] by simp
  show ?thesis
    by (auto simp: extract_zip_def extract_error_def status_cb_def
        split: option.splits node.splits outcome.splits prod.splits dest: m)
qed

lemma remove_zip_net: "p_net (remove_zip st zip_path) = p_net st"
  by (simp add: remove_zip_def set_fs_def split: outcome.splits)

lemma install_dir_net: "p_net (install_dir st found target_dir) = p_net st"
  by (simp add: install_dir_def set_fs_def split: outcome.splits)

lemma install_download_net:
  "p_net (snd (install_download env target_dir zip_path st)) = p_net st"
proof -
  let ?st3 = "status_cb st (None, 0, Some 0, ''Extracting model...'')"
  obtain ok2 st4 where ex: "extract_zip env zip_path (dirname target_dir) ?st3 = (ok2, st4)"
    by force
  have n4: "p_net st4 = p_net st"
    using extract_zip_net [of env zip_path "dirname target_dir" ?st3] ex
    by (simp add: status_cb_def)
  have cb: "p_net (status_cb s c) = p_net s" for s c by (simp add: status_cb_def)
  show ?thesis
    using ex n4
    by (simp add: install_download_def Let_def install_dir_net cb remove_zip_net
        split: option.splits)
qed

lemma url_loop_net:
  "length (p_net st) + (if urls = [] then 0 else 1)
     \<le> length (p_net (snd (url_loop env target_dir zip_path urls st)))"
proof (induction urls arbitrary: st)
  case Nil
  then show ?case by (simp add: status_cb_def)
next
  case (Cons url urls)
  let ?st1 = "status_cb st (None, 0, Some 0, ''Trying: '' @ url)"
  obtain ok st2 where d: "download_with_progress env url zip_path ?st1 = (ok, st2)" by force
  have n2: "length (p_net st2) = Suc (length (p_net st))"
    using download_net [of env url zip_path ?st1] d by (simp add: status_cb_def)
  obtain don st4 where i: "install_download env target_dir zip_path st2 = (don, st4)" by force
  have n4: "p_net st4 = p_net st2"
    using install_download_net [of env target_dir zip_path st2] i by simp
  have r2: "length (p_net st2) \<le> length (p_net (snd (url_loop env target_dir zip_path urls st2)))"
    using Cons.IH [of st2] by (simp split: if_splits)
  have r4: "length (p_net st4) \<le> length (p_net (snd (url_loop env target_dir zip_path urls st4)))"
    using Cons.IH [of st4] by (simp split: if_splits)
  show ?case using d i n2 n4 r2 r4 by simp
qed

lemma url_loop_empty: "\<not> fst (url_loop env target_dir zip_path [] st)"
  by simp

text \<open>
  Claim C2, as stated, on the code: the test at the head of \<^verbatim>\<open>auto_download_model\<close> is
  \<^verbatim>\<open>os.path.isdir(target_dir)\<close> alone. A target directory that exists and is empty is
  taken as valid: the function returns true and sends no request.
\<close>

theorem C2_counterexample:
  "isdir (p_fs empty_target) CONFIG_model_target_dir
   \<and> listdir (p_fs empty_target) CONFIG_model_target_dir = []
   \<and> fst (auto_download_model flaky_env CONFIG_model_target_dir CANDIDATE_URLS empty_target)
        = Returns True
   \<and> p_net (snd (auto_download_model flaky_env CONFIG_model_target_dir CANDIDATE_URLS empty_target))
        = []"
  by code_simp

text \<open>
  Claim C2, amended. \<^verbatim>\<open>auto_download_model\<close> returns true with no network request
  exactly when the target path is an existing directory at the time of the call, whether
  the directory is empty or not; in that case it only reports \<^verbatim>\<open>Model already present\<close>.
  In particular a populated target directory gives success with no request.
\<close>

theorem C2_present_directory_short_circuits:
  "((fst (auto_download_model env target_dir urls st) = Returns True
      \<and> p_net (snd (auto_download_model env target_dir urls st)) = p_net st)
     = isdir (p_fs st) target_dir)
   \<and> (isdir (p_fs st) target_dir \<longrightarrow>
        auto_download_model env target_dir urls st = (Returns True, status_cb st already_present))"
proof -
  have yes: "auto_download_model env target_dir urls st = (Returns True, status_cb st already_present)"
    if "isdir (p_fs st) target_dir"
    using that by (simp add: auto_download_model_def already_present_def)
  have no: "\<not> (fst (auto_download_model env target_dir urls st) = Returns True
      \<and> p_net (snd (auto_download_model env target_dir urls st)) = p_net st)"
    if absent: "\<not> isdir (p_fs st) target_dir"
  proof (cases "makedirs (p_fs st) (dirname target_dir)")
    case (Raises e)
    with absent show ?thesis by (simp add: auto_download_model_def)
  next
    case (Returns fs1)
    let ?zip = "join (dirname target_dir) CONFIG_model_zip"
    obtain ok st2 where u: "url_loop env target_dir ?zip urls (set_fs st fs1) = (ok, st2)" by force
    have res: "auto_download_model env target_dir urls st = (Returns ok, st2)"
      using absent Returns u by (simp add: auto_download_model_def)
    show ?thesis
    proof (cases urls)
      case Nil
      with u have "\<not> ok" by auto
      with res show ?thesis by simp
    next
      case (Cons a list)
      have "length (p_net (set_fs st fs1)) + 1 \<le> length (p_net st2)"
        using url_loop_net [of "set_fs st fs1" urls env target_dir ?zip] u Cons by simp
      then have "p_net st2 \<noteq> p_net st" by (auto simp: set_fs_def)
      with res show ?thesis by simp
    qed
  qed
  have eq: "(fst (auto_download_model env target_dir urls st) = Returns True
      \<and> p_net (snd (auto_download_model env target_dir urls st)) = p_net st)
     = isdir (p_fs st) target_dir"
  proof (cases "isdir (p_fs st) target_dir")
    case True
    then show ?thesis using yes [OF True] by (simp add: status_cb_def)
  next
    case False
    then show ?thesis using no [OF False] by blast
  qed
  show ?thesis using eq yes by blast
qed

theorem C2_present_directory_short_circuits_witness:
  "isdir (p_fs populated_target) CONFIG_model_target_dir
   \<and> listdir (p_fs populated_target) CONFIG_model_target_dir = [''README'']
   \<and> auto_download_model flaky_env CONFIG_model_target_dir CANDIDATE_URLS populated_target
        = (Returns True, status_cb populated_target already_present)
   \<and> p_net (snd (auto_download_model flaky_env CONFIG_model_target_dir CANDIDATE_URLS populated_target))
        = p_net populated_target"
proof -
  have h: "isdir (p_fs populated_target) CONFIG_model_target_dir
     \<and> listdir (p_fs populated_target) CONFIG_model_target_dir = [''README'']"
    by code_simp
  show ?thesis
    using C2_present_directory_short_circuits [of flaky_env CONFIG_model_target_dir CANDIDATE_URLS
        populated_target] h
    by blast
qed

end
